theory Spec2Isabelle
  imports Main "HOL-Library.AList" "HOL-Library.Sublist"
begin

section \<open>Strings\<close>

text \<open>
  A header string is a list of characters with codes below 256. \<open>isspace\<close> holds of the
  characters among them that Python's \<^verbatim>\<open>str.strip()\<close> removes (codes 9 to 13, 28 to 32,
  133 and 160), and \<open>str_lower\<close> is \<^verbatim>\<open>str.lower()\<close> on them: the capital letters, with
  codes 65 to 90 and 192 to 222 except the multiplication sign 215, are moved up by 32.
  Characters with codes above 255 are not modelled.
\<close>

definition isspace :: "char \<Rightarrow> bool" where
  "isspace c =
     (let n = (of_char c :: nat)
      in (9 \<le> n \<and> n \<le> 13) \<or> (28 \<le> n \<and> n \<le> 32) \<or> n = 133 \<or> n = 160)"

definition str_strip :: "string \<Rightarrow> string" where
  "str_strip s = rev (dropWhile isspace (rev (dropWhile isspace s)))"

definition lower_char :: "char \<Rightarrow> char" where
  "lower_char c =
     (let n = (of_char c :: nat)
      in if (65 \<le> n \<and> n \<le> 90) \<or> (192 \<le> n \<and> n \<le> 222 \<and> n \<noteq> 215)
         then char_of (n + 32) else c)"

definition str_lower :: "string \<Rightarrow> string" where
  "str_lower s = map lower_char s"

text \<open>Python's \<^verbatim>\<open>key in col_str\<close> on strings: \<open>key\<close> occurs as a contiguous run.\<close>

fun starts_with :: "string \<Rightarrow> string \<Rightarrow> bool" where
  "starts_with [] s = True"
| "starts_with (k # ks) [] = False"
| "starts_with (k # ks) (c # cs) = (k = c \<and> starts_with ks cs)"

fun str_contains :: "string \<Rightarrow> string \<Rightarrow> bool" where
  "str_contains key [] = (key = [])"
| "str_contains key (c # cs) = (starts_with key (c # cs) \<or> str_contains key cs)"

section \<open>Column names: \<^verbatim>\<open>ExcelMerger.analyze_column\<close>\<close>

text \<open>
  A header value is either null-like (\<^verbatim>\<open>pd.isna\<close> holds: \<^verbatim>\<open>None\<close>, NaN, NaT) or any
  other value, represented by the string that \<^verbatim>\<open>str()\<close> gives for it.
\<close>

datatype header = Null_like | Str string

text \<open>The dictionary \<^verbatim>\<open>replacements\<close>, in its insertion order (the order of the loop).\<close>

definition replacements :: "(string \<times> string) list" where
  "replacements =
    [(''truck'', ''truck''),
     (''vehicle'', ''truck''),
     (''unit'', ''truck''),
     (''truck_no'', ''truck_number''),
     (''truck_nbr'', ''truck_number''),
     (''truck_num'', ''truck_number''),
     (''truck#'', ''truck_number''),
     (''trk'', ''truck''),
     (''loc'', ''location''),
     (''gps'', ''location''),
     (''position'', ''location''),
     (''coord'', ''location''),
     (''lat'', ''latitude''),
     (''lon'', ''longitude''),
     (''long'', ''longitude''),
     (''status'', ''status''),
     (''state'', ''status''),
     (''condition'', ''status''),
     (''date'', ''date''),
     (''time'', ''time''),
     (''timestamp'', ''datetime''),
     (''driver'', ''driver''),
     (''operator'', ''driver''),
     (''load'', ''load''),
     (''cargo'', ''load''),
     (''weight'', ''weight''),
     (''destination'', ''destination''),
     (''dest'', ''destination''),
     (''origin'', ''origin''),
     (''src'', ''origin''),
     (''speed'', ''speed''),
     (''velocity'', ''speed''),
     (''fuel'', ''fuel''),
     (''mileage'', ''mileage''),
     (''odometer'', ''mileage''),
     (''temp'', ''temperature''),
     (''temperature'', ''temperature'')]"

text \<open>The loop \<^verbatim>\<open>for key, value in replacements.items(): if key in col_str: return value\<close>.\<close>

fun match_replacements :: "(string \<times> string) list \<Rightarrow> string \<Rightarrow> string option" where
  "match_replacements [] col_str = None"
| "match_replacements ((key, val) # rest) col_str =
     (if str_contains key col_str then Some val else match_replacements rest col_str)"

fun analyze_column :: "header \<Rightarrow> string" where
  "analyze_column Null_like = []"
| "analyze_column (Str s) =
     (let col_str = str_lower (str_strip s)
      in case match_replacements replacements col_str of
           Some val \<Rightarrow> val
         | None \<Rightarrow> col_str)"

declare analyze_column.simps [simp del]

section \<open>Tables\<close>

text \<open>
  A cell is null (NaN, None), a string, a whole number, a boolean or a date/time.
\<close>

datatype cell = Null | Text string | Number int | Boolean bool | Timestamp nat

text \<open>
  A data frame: the length of its index and its columns in order, each with its values.
  A frame built by the operations below stores exactly \<open>nrows\<close> values in every column
  (\<open>frame_ok\<close>), and a frame as read from a sheet has pairwise different column labels.
\<close>

record frame =
  nrows :: nat
  cols :: "(string \<times> cell list) list"

definition empty_frame :: frame where
  "empty_frame = \<lparr>nrows = 0, cols = []\<rparr>"

definition columns :: "frame \<Rightarrow> string list" where
  "columns df = map fst (cols df)"

definition frame_empty :: "frame \<Rightarrow> bool" where
  "frame_empty df = (nrows df = 0 \<or> cols df = [])"

definition frame_ok :: "frame \<Rightarrow> bool" where
  "frame_ok df = (distinct (columns df) \<and> (\<forall>vs \<in> set (map snd (cols df)). length vs = nrows df))"

text \<open>
  Assigning a non-empty sequence to a column of a frame whose index is empty first gives
  the frame the index of the sequence; columns that exist already are filled with null.
\<close>

definition ensure_valid_index :: "frame \<Rightarrow> cell list \<Rightarrow> frame" where
  "ensure_valid_index df vs =
     (if nrows df = 0 \<and> vs \<noteq> []
      then \<lparr>nrows = length vs, cols = map (\<lambda>(c, old). (c, replicate (length vs) Null)) (cols df)\<rparr>
      else df)"

text \<open>Alignment of a series indexed \<open>0..<length vs\<close> to an index \<open>0..<n\<close>.\<close>

definition align :: "nat \<Rightarrow> cell list \<Rightarrow> cell list" where
  "align n vs = take n vs @ replicate (n - length vs) Null"

text \<open>\<^verbatim>\<open>df[key] = series\<close>\<close>

definition set_series :: "frame \<Rightarrow> string \<Rightarrow> cell list \<Rightarrow> frame" where
  "set_series df key vs =
     (let df' = ensure_valid_index df vs
      in df'\<lparr>cols := AList.update key (align (nrows df') vs) (cols df')\<rparr>)"

text \<open>\<^verbatim>\<open>df[key] = scalar\<close>: the scalar is repeated along the index the frame has now, so
  on a frame whose index is still empty the new column is empty too.\<close>

definition set_scalar :: "frame \<Rightarrow> string \<Rightarrow> cell \<Rightarrow> frame" where
  "set_scalar df key v = df\<lparr>cols := AList.update key (replicate (nrows df) v) (cols df)\<rparr>"

text \<open>The rows of \<open>n\<close>-element columns, read across.\<close>

fun rows_of :: "nat \<Rightarrow> 'a list list \<Rightarrow> 'a list list" where
  "rows_of 0 cs = []"
| "rows_of (Suc n) cs = map hd cs # rows_of n (map tl cs)"


text \<open>\<^verbatim>\<open>pd.concat(frames, ignore_index=True)\<close>: the union of the columns in order of first
  appearance, rows stacked, null where a frame lacks a column.\<close>

definition concat_frames :: "frame list \<Rightarrow> frame" where
  "concat_frames fs =
     \<lparr>nrows = sum_list (map nrows fs),
      cols = map (\<lambda>c. (c, concat (map (\<lambda>f. case map_of (cols f) c of
                                              Some vs \<Rightarrow> vs
                                            | None \<Rightarrow> replicate (nrows f) Null) fs)))
                 (rev (remdups (rev (concat (map columns fs)))))\<rparr>"

text \<open>
  \<^verbatim>\<open>drop_duplicates(subset, keep='first')\<close>: a row is kept when the values of its
  \<open>subset\<close> columns have not been seen in an earlier row. pandas compares the values of a
  column by their hashes and Python's equality, and gives all nulls one code: two nulls
  are equal, and \<^verbatim>\<open>True\<close> equals the number 1 and \<^verbatim>\<open>False\<close> the number 0 (after
  \<^verbatim>\<open>pd.concat\<close> a column can hold booleans of one table and numbers of another).
  \<open>cell_key\<close> maps a cell to the representative of the cells that equal it.
\<close>

fun cell_key :: "cell \<Rightarrow> cell" where
  "cell_key (Boolean b) = Number (if b then 1 else 0)"
| "cell_key v = v"

fun keep_first :: "'a list \<Rightarrow> 'a list \<Rightarrow> bool list" where
  "keep_first seen [] = []"
| "keep_first seen (k # ks) = (k \<notin> set seen) # keep_first (k # seen) ks"

definition select_rows :: "bool list \<Rightarrow> 'a list \<Rightarrow> 'a list" where
  "select_rows keep vs = map snd (filter fst (zip keep vs))"

definition subset_rows :: "string list \<Rightarrow> frame \<Rightarrow> cell list list" where
  "subset_rows key_columns df =
     rows_of (nrows df) (map snd (filter (\<lambda>(c, vs). c \<in> set key_columns) (cols df)))"

definition drop_duplicates :: "string list \<Rightarrow> frame \<Rightarrow> frame" where
  "drop_duplicates key_columns df =
     (let keep = keep_first [] (map (map cell_key) (subset_rows key_columns df))
      in \<lparr>nrows = length (filter id keep),
          cols = map (\<lambda>(c, vs). (c, select_rows keep vs)) (cols df)\<rparr>)"

section \<open>Loading: \<^verbatim>\<open>ExcelMerger.extract_dataframes\<close>\<close>

record data_info =
  file_path :: string
  sheet_name :: string
  original_columns :: "string list"
  standardized_columns :: "(string \<times> string) list"
  dataframe :: frame
  row_count :: nat

text \<open>
  Reading is a parameter: \<open>read_workbook path\<close> is \<open>None\<close> when opening the file raises,
  and otherwise the sheets in file order, each \<open>None\<close> when reading it raises and otherwise
  its frame, whose column labels are given as their \<^verbatim>\<open>str()\<close>.
\<close>

type_synonym workbook = "(string \<times> frame option) list"

text \<open>\<^verbatim>\<open>df.columns = [str(col).strip() for col in df.columns]\<close>\<close>

definition clean_columns :: "frame \<Rightarrow> frame" where
  "clean_columns df = df\<lparr>cols := map (\<lambda>(col, vs). (str_strip col, vs)) (cols df)\<rparr>"

text \<open>The loop filling \<^verbatim>\<open>standardized_cols\<close>, a dictionary in insertion order.\<close>

fun standardize :: "string list \<Rightarrow> (string \<times> string) list \<Rightarrow> (string \<times> string) list" where
  "standardize [] standardized_cols = standardized_cols"
| "standardize (col # rest) standardized_cols =
     (let std_col = analyze_column (Str col)
      in standardize rest
           (if std_col \<noteq> [] then AList.update col std_col standardized_cols
            else standardized_cols))"

fun read_sheets :: "string \<Rightarrow> workbook \<Rightarrow> data_info list" where
  "read_sheets path [] = []"
| "read_sheets path ((sheet, None) # rest) = read_sheets path rest"
| "read_sheets path ((sheet, Some raw) # rest) =
     (if frame_empty raw \<or> nrows raw = 0 then read_sheets path rest
      else
        let df = clean_columns raw
        in \<lparr>file_path = path,
            sheet_name = sheet,
            original_columns = columns df,
            standardized_columns = standardize (columns df) [],
            dataframe = df,
            row_count = nrows df\<rparr> # read_sheets path rest)"

fun extract_dataframes :: "(string \<Rightarrow> workbook option) \<Rightarrow> string list \<Rightarrow> data_info list" where
  "extract_dataframes read_workbook [] = []"
| "extract_dataframes read_workbook (path # excel_files) =
     (case read_workbook path of
        None \<Rightarrow> extract_dataframes read_workbook excel_files
      | Some sheets \<Rightarrow> read_sheets path sheets @ extract_dataframes read_workbook excel_files)"

section \<open>Mapping: \<^verbatim>\<open>ExcelMerger.create_column_mapping\<close>\<close>

type_synonym occurrence = "string \<times> string \<times> string"

text \<open>\<^verbatim>\<open>all_std_columns[std_col].append(occ)\<close> on a \<^verbatim>\<open>defaultdict(list)\<close>.\<close>

definition append_occurrence ::
  "string \<Rightarrow> occurrence \<Rightarrow> (string \<times> occurrence list) list \<Rightarrow> (string \<times> occurrence list) list" where
  "append_occurrence std_col occ all_std_columns =
     AList.update std_col
       ((case map_of all_std_columns std_col of None \<Rightarrow> [] | Some occs \<Rightarrow> occs) @ [occ])
       all_std_columns"

fun collect_items ::
  "string \<Rightarrow> string \<Rightarrow> (string \<times> string) list \<Rightarrow> (string \<times> occurrence list) list
     \<Rightarrow> (string \<times> occurrence list) list" where
  "collect_items path sheet [] all_std_columns = all_std_columns"
| "collect_items path sheet ((orig_col, std_col) # rest) all_std_columns =
     collect_items path sheet rest
       (append_occurrence std_col (path, sheet, orig_col) all_std_columns)"

fun collect_columns ::
  "data_info list \<Rightarrow> (string \<times> occurrence list) list \<Rightarrow> (string \<times> occurrence list) list" where
  "collect_columns [] all_std_columns = all_std_columns"
| "collect_columns (info # rest) all_std_columns =
     collect_columns rest
       (collect_items (file_path info) (sheet_name info) (standardized_columns info)
          all_std_columns)"

text \<open>
  \<^verbatim>\<open>max(iterable, key=f)\<close> returns the first element of the iteration whose key is
  maximal. The iteration order of \<^verbatim>\<open>set(original_columns)\<close> depends on hashing; it is the
  parameter \<open>rank\<close>: the elements are visited by increasing \<open>rank original_columns\<close>.
  Under the guard \<^verbatim>\<open>len(occurrences) > 0\<close> the set is not empty, so \<^verbatim>\<open>max\<close> does not
  raise and the branch for the empty iteration below is never taken
  (lemma \<open>build_mapping_step\<close>).
\<close>

fun max_by :: "('a \<Rightarrow> nat) \<Rightarrow> 'a \<Rightarrow> 'a list \<Rightarrow> 'a" where
  "max_by f best [] = best"
| "max_by f best (x # xs) = max_by f (if f best < f x then x else best) xs"

definition set_iteration :: "(string list \<Rightarrow> string \<Rightarrow> nat) \<Rightarrow> string list \<Rightarrow> string list" where
  "set_iteration rank xs = sort_key (rank xs) (remdups xs)"

fun build_mapping ::
  "(string list \<Rightarrow> string \<Rightarrow> nat) \<Rightarrow> (string \<times> occurrence list) list
     \<Rightarrow> (string \<times> string) list \<Rightarrow> (string \<times> string) list" where
  "build_mapping rank [] column_mapping = column_mapping"
| "build_mapping rank ((std_col, occurrences) # rest) column_mapping =
     build_mapping rank rest
       (if length occurrences > 0 then
          (let original_columns = map (\<lambda>occ. snd (snd occ)) occurrences
           in case set_iteration rank original_columns of
                [] \<Rightarrow> column_mapping
              | x # xs \<Rightarrow>
                  AList.update std_col (max_by (count_list original_columns) x xs)
                    column_mapping)
        else column_mapping)"

definition create_column_mapping ::
  "(string list \<Rightarrow> string \<Rightarrow> nat) \<Rightarrow> data_info list \<Rightarrow> (string \<times> string) list" where
  "create_column_mapping rank data_info_list =
     build_mapping rank (collect_columns data_info_list []) []"

section \<open>Merging: \<^verbatim>\<open>ExcelMerger.merge_dataframes\<close>\<close>

text \<open>\<^verbatim>\<open>Path(file_path).name\<close> for the path of a file: the text after the last separator.\<close>

definition path_name :: "string \<Rightarrow> string" where
  "path_name path = rev (takeWhile (\<lambda>c. c \<noteq> CHR ''/'') (rev path))"

text \<open>
  The exceptions that leave the methods: \<^verbatim>\<open>ValueError\<close> (raised by pandas in
  \<^verbatim>\<open>merge_dataframes\<close>, and by \<^verbatim>\<open>find_excel_files\<close> when no directory is given), and the
  failure of writing the output.
\<close>

datatype error = ValueError | ExportError

text \<open>
  \<^verbatim>\<open>df[label]\<close> for a label of \<^verbatim>\<open>df.columns\<close>: the column when the label occurs once,
  and a frame of all the columns that carry the label when it occurs several times (the
  labels of a sheet can coincide once the loader has stripped them).
\<close>

datatype selection = Series "cell list" | DataFrame "cell list list"

definition getitem :: "frame \<Rightarrow> string \<Rightarrow> selection" where
  "getitem df label =
     (case map snd (filter (\<lambda>(c, vs). c = label) (cols df)) of
        [vs] \<Rightarrow> Series vs
      | vss \<Rightarrow> DataFrame vss)"

text \<open>
  \<^verbatim>\<open>standardized_df[key] = value\<close>: a series is aligned and stored. A frame is stored when
  it has one column; for a frame of several columns (or none) pandas raises
  \<^verbatim>\<open>ValueError\<close>, as they cannot be set to the single column \<^verbatim>\<open>key\<close>.
\<close>

definition setitem :: "frame \<Rightarrow> string \<Rightarrow> selection \<Rightarrow> error + frame" where
  "setitem df key v =
     (case v of
        Series vs \<Rightarrow> Inr (set_series df key vs)
      | DataFrame vss \<Rightarrow>
          (case vss of [vs] \<Rightarrow> Inr (set_series df key vs) | _ \<Rightarrow> Inl ValueError))"

text \<open>The inner loop over \<^verbatim>\<open>df.columns\<close> looking for a column with the same standardized
  name: the label at which the loop breaks.\<close>

fun find_similar_label :: "string list \<Rightarrow> string \<Rightarrow> string option" where
  "find_similar_label [] std_col = None"
| "find_similar_label (df_col # rest) std_col =
     (if analyze_column (Str df_col) = std_col then Some df_col
      else find_similar_label rest std_col)"

text \<open>
  One round of the loop over \<^verbatim>\<open>column_mapping.items()\<close>: the exact match, else the first
  similar column, else a column of nulls. The round raises when the label it selects occurs
  several times in the table.
\<close>

definition project_column_checked :: "frame \<Rightarrow> frame \<Rightarrow> string \<times> string \<Rightarrow> error + frame" where
  "project_column_checked df standardized_df item =
     (case item of (std_col, orig_col) \<Rightarrow>
        if orig_col \<in> set (columns df)
        then setitem standardized_df std_col (getitem df orig_col)
        else
          (case find_similar_label (columns df) std_col of
             Some df_col \<Rightarrow> setitem standardized_df std_col (getitem df df_col)
           | None \<Rightarrow> Inr (set_scalar standardized_df std_col Null)))"

text \<open>The loop over \<^verbatim>\<open>column_mapping.items()\<close>; an exception ends it.\<close>

fun standardize_frame_checked ::
  "(string \<times> string) list \<Rightarrow> frame \<Rightarrow> frame \<Rightarrow> error + frame" where
  "standardize_frame_checked [] df standardized_df = Inr standardized_df"
| "standardize_frame_checked (item # rest) df standardized_df =
     (case project_column_checked df standardized_df item of
        Inl err \<Rightarrow> Inl err
      | Inr standardized_df' \<Rightarrow> standardize_frame_checked rest df standardized_df')"

text \<open>The body of the loop over \<^verbatim>\<open>data_info_list\<close>; \<open>now\<close> is what \<^verbatim>\<open>datetime.now()\<close>
  returns in this round.\<close>

definition project_table_checked ::
  "(string \<times> string) list \<Rightarrow> data_info \<Rightarrow> nat \<Rightarrow> error + frame" where
  "project_table_checked column_mapping info now =
     (case standardize_frame_checked column_mapping (dataframe info) empty_frame of
        Inl err \<Rightarrow> Inl err
      | Inr standardized_df \<Rightarrow>
          (let standardized_df =
                 set_scalar standardized_df ''source_file'' (Text (path_name (file_path info)));
               standardized_df =
                 set_scalar standardized_df ''source_sheet'' (Text (sheet_name info))
           in Inr (set_scalar standardized_df ''merge_timestamp'' (Timestamp now))))"

text \<open>
  The clock is a parameter: \<open>clock i\<close> is the reading of the \<open>i\<close>-th call of
  \<^verbatim>\<open>datetime.now()\<close> in the run, counted from 0. The loop calls it once per table.
\<close>

fun project_all_checked ::
  "(string \<times> string) list \<Rightarrow> (nat \<Rightarrow> nat) \<Rightarrow> nat \<Rightarrow> data_info list \<Rightarrow> error + frame list" where
  "project_all_checked column_mapping clock calls [] = Inr []"
| "project_all_checked column_mapping clock calls (info # rest) =
     (case project_table_checked column_mapping info (clock calls) of
        Inl err \<Rightarrow> Inl err
      | Inr standardized_df \<Rightarrow>
          (case project_all_checked column_mapping clock (Suc calls) rest of
             Inl err \<Rightarrow> Inl err
           | Inr merged_data \<Rightarrow> Inr (standardized_df # merged_data)))"

definition provenance :: "string list" where
  "provenance = [''source_file'', ''source_sheet'', ''merge_timestamp'']"

definition data_columns :: "frame \<Rightarrow> string list" where
  "data_columns master_df = filter (\<lambda>col. col \<notin> set provenance) (columns master_df)"

text \<open>The method: \<open>Inl\<close> is an exception leaving it, \<open>Inr\<close> the frame it returns.\<close>

definition merge_dataframes_checked ::
  "(nat \<Rightarrow> nat) \<Rightarrow> data_info list \<Rightarrow> (string \<times> string) list \<Rightarrow> error + frame" where
  "merge_dataframes_checked clock data_info_list column_mapping =
     (case project_all_checked column_mapping clock 0 data_info_list of
        Inl err \<Rightarrow> Inl err
      | Inr merged_data \<Rightarrow>
          Inr (if merged_data \<noteq> [] then
                 (let master_df = concat_frames merged_data
                  in if length (data_columns master_df) > 0
                     then drop_duplicates (data_columns master_df) master_df
                     else master_df)
               else empty_frame))"

text \<open>
  The same loops for a run in which no exception is raised: \<open>project_column\<close>,
  \<open>project_table\<close> and \<open>merge_dataframes\<close> are the frames that the round, the loop body and
  the method produce then. In a table whose labels are pairwise different no round raises
  (\<open>merge_dataframes_checked_distinct\<close> below), and whenever the method returns a frame it
  is this one (\<open>merge_dataframes_checked_Inr\<close>).
\<close>

fun find_similar :: "(string \<times> cell list) list \<Rightarrow> string \<Rightarrow> cell list option" where
  "find_similar [] std_col = None"
| "find_similar ((df_col, vs) # rest) std_col =
     (if analyze_column (Str df_col) = std_col then Some vs else find_similar rest std_col)"

definition project_column :: "frame \<Rightarrow> frame \<Rightarrow> string \<times> string \<Rightarrow> frame" where
  "project_column df standardized_df item =
     (case item of (std_col, orig_col) \<Rightarrow>
        (case map_of (cols df) orig_col of
           Some vs \<Rightarrow> set_series standardized_df std_col vs
         | None \<Rightarrow>
            (case find_similar (cols df) std_col of
               Some vs \<Rightarrow> set_series standardized_df std_col vs
             | None \<Rightarrow> set_scalar standardized_df std_col Null)))"

definition standardize_frame :: "(string \<times> string) list \<Rightarrow> frame \<Rightarrow> frame" where
  "standardize_frame column_mapping df =
     fold (\<lambda>item standardized_df. project_column df standardized_df item)
       column_mapping empty_frame"

definition project_table :: "(string \<times> string) list \<Rightarrow> data_info \<Rightarrow> nat \<Rightarrow> frame" where
  "project_table column_mapping info now =
     (let standardized_df = standardize_frame column_mapping (dataframe info);
          standardized_df =
            set_scalar standardized_df ''source_file'' (Text (path_name (file_path info)));
          standardized_df = set_scalar standardized_df ''source_sheet'' (Text (sheet_name info))
      in set_scalar standardized_df ''merge_timestamp'' (Timestamp now))"

fun project_all ::
  "(string \<times> string) list \<Rightarrow> (nat \<Rightarrow> nat) \<Rightarrow> nat \<Rightarrow> data_info list \<Rightarrow> frame list" where
  "project_all column_mapping clock calls [] = []"
| "project_all column_mapping clock calls (info # rest) =
     project_table column_mapping info (clock calls)
       # project_all column_mapping clock (Suc calls) rest"

definition merge_dataframes ::
  "(nat \<Rightarrow> nat) \<Rightarrow> data_info list \<Rightarrow> (string \<times> string) list \<Rightarrow> frame" where
  "merge_dataframes clock data_info_list column_mapping =
     (let merged_data = project_all column_mapping clock 0 data_info_list
      in if merged_data \<noteq> [] then
           (let master_df = concat_frames merged_data
            in if length (data_columns master_df) > 0
               then drop_duplicates (data_columns master_df) master_df
               else master_df)
         else empty_frame)"

section \<open>The run: \<^verbatim>\<open>ExcelMerger.merge_excel_files\<close>\<close>

record summary =
  total_files_processed :: nat
  total_sheets_processed :: nat
  total_rows_before_merge :: nat
  total_rows_after_merge :: nat
  unique_columns_found :: nat
  merge_timestamp :: nat
  file_details :: "(string \<times> string list \<times> nat) list"

fun file_summary ::
  "data_info list \<Rightarrow> (string \<times> string list \<times> nat) list \<Rightarrow> (string \<times> string list \<times> nat) list" where
  "file_summary [] acc = acc"
| "file_summary (info # rest) acc =
     (let filename = path_name (file_path info);
          entry = (case map_of acc filename of None \<Rightarrow> ([], 0) | Some e \<Rightarrow> e)
      in file_summary rest
           (AList.update filename (fst entry @ [sheet_name info], snd entry + row_count info) acc))"

definition generate_summary_report :: "nat \<Rightarrow> frame \<Rightarrow> data_info list \<Rightarrow> summary" where
  "generate_summary_report now master_df data_info_list =
     \<lparr>total_files_processed = length (remdups (map file_path data_info_list)),
      total_sheets_processed = length data_info_list,
      total_rows_before_merge = sum_list (map row_count data_info_list),
      total_rows_after_merge = nrows master_df,
      unique_columns_found = (if \<not> frame_empty master_df then length (columns master_df) else 0),
      merge_timestamp = now,
      file_details = file_summary data_info_list []\<rparr>"

text \<open>
  The surroundings of a run: the directory listing behind \<^verbatim>\<open>find_excel_files\<close>, the
  reading of workbooks, the iteration order of sets, the clock, and whether writing the
  output succeeds.
\<close>

record env =
  env_glob :: "string \<Rightarrow> string \<Rightarrow> string list"
  env_is_file :: "string \<Rightarrow> bool"
  env_read_workbook :: "string \<Rightarrow> workbook option"
  env_rank :: "string list \<Rightarrow> string \<Rightarrow> nat"
  env_clock :: "nat \<Rightarrow> nat"
  env_export_ok :: bool

definition find_excel_files :: "env \<Rightarrow> string option \<Rightarrow> error + string list" where
  "find_excel_files e directory =
     (case directory of
        None \<Rightarrow> Inl ValueError
      | Some dir \<Rightarrow>
          if dir = [] then Inl ValueError
          else Inr (filter (env_is_file e)
                 (concat (map (\<lambda>ext. env_glob e dir (''*'' @ ext))
                            [''.xlsx'', ''.xls'', ''.xlsm'', ''.xlsb'']))))"

text \<open>The first step of the method: the files given, or else those found in the directory
  (\<^verbatim>\<open>directory\<close> replaces \<^verbatim>\<open>self.input_dir\<close> when it is given and not empty).\<close>

definition get_excel_files ::
  "env \<Rightarrow> string option \<Rightarrow> string list option \<Rightarrow> string option \<Rightarrow> error + string list" where
  "get_excel_files e input_dir excel_files directory =
     (case excel_files of
        Some files \<Rightarrow> Inr files
      | None \<Rightarrow>
          find_excel_files e
            (case directory of
               None \<Rightarrow> input_dir
             | Some dir \<Rightarrow> if dir \<noteq> [] then Some dir else input_dir))"

text \<open>
  The result \<open>Inr None\<close> is the pair \<^verbatim>\<open>(None, None)\<close> that the method returns when there is
  nothing to merge; \<open>Inl\<close> is an exception leaving the method.
\<close>

definition merge_excel_files ::
  "env \<Rightarrow> string option \<Rightarrow> string list option \<Rightarrow> string option
     \<Rightarrow> error + (frame \<times> summary) option" where
  "merge_excel_files e input_dir excel_files directory =
     (case get_excel_files e input_dir excel_files directory of
        Inl err \<Rightarrow> Inl err
      | Inr files \<Rightarrow>
          if files = [] then Inr None
          else
            (let data_info_list = extract_dataframes (env_read_workbook e) files
             in if data_info_list = [] then Inr None
                else
                  (let column_mappings = create_column_mapping (env_rank e) data_info_list
                   in case merge_dataframes_checked (env_clock e) data_info_list column_mappings of
                        Inl err \<Rightarrow> Inl err
                      | Inr master_df \<Rightarrow>
                          if frame_empty master_df then Inr None
                          else
                            (let summary =
                                   generate_summary_report (env_clock e (length data_info_list))
                                     master_df data_info_list
                             in if env_export_ok e then Inr (Some (master_df, summary))
                                else Inl ExportError))))"

section \<open>Notions used in the statements\<close>

text \<open>
  An entry \<open>(std_col, orig_col)\<close> of the mapping is found in a table when the table has a
  column labelled \<open>orig_col\<close>, or a column whose standardized name is \<open>std_col\<close>.
\<close>

definition found_in :: "frame \<Rightarrow> string \<times> string \<Rightarrow> bool" where
  "found_in df item =
     (snd item \<in> set (columns df) \<or> (\<exists>c \<in> set (columns df). analyze_column (Str c) = fst item))"

text \<open>The rows of a frame restricted to the columns that are not source information.\<close>

definition data_rows :: "frame \<Rightarrow> cell list list" where
  "data_rows df = subset_rows (data_columns df) df"



text \<open>
  The original names collected for a standardized name, in the order of the scan: the
  third components of \<^verbatim>\<open>all_std_columns[std_col]\<close>.
\<close>

definition occurrence_names :: "data_info list \<Rightarrow> string \<Rightarrow> string list" where
  "occurrence_names data_info_list std_col =
     concat (map (\<lambda>info. map fst (filter (\<lambda>item. snd item = std_col) (standardized_columns info)))
               data_info_list)"

text \<open>Auxiliary notions of the proofs.\<close>

definition null_column :: "frame \<Rightarrow> string \<Rightarrow> bool" where
  "null_column df k = (map_of (cols df) k = Some (replicate (nrows df) Null))"

definition piece :: "frame \<Rightarrow> string \<Rightarrow> cell list" where
  "piece f c = (case map_of (cols f) c of Some vs \<Rightarrow> vs | None \<Rightarrow> replicate (nrows f) Null)"

definition occs_of :: "(string \<times> occurrence list) list \<Rightarrow> string \<Rightarrow> occurrence list" where
  "occs_of al k = (case map_of al k of None \<Rightarrow> [] | Some occs \<Rightarrow> occs)"

definition most_common :: "(string list \<Rightarrow> string \<Rightarrow> nat) \<Rightarrow> string list \<Rightarrow> string" where
  "most_common rank xs =
     (case set_iteration rank xs of [] \<Rightarrow> [] | x # rest \<Rightarrow> max_by (count_list xs) x rest)"

definition item_ok :: "string \<times> string \<Rightarrow> bool" where
  "item_ok item = (snd item = analyze_column (Str (fst item)) \<and> snd item \<noteq> [])"

definition standardized_ok :: "data_info \<Rightarrow> bool" where
  "standardized_ok info = (\<forall>item \<in> set (standardized_columns info). item_ok item)"

section \<open>Example inputs\<close>

text \<open>
  Sheets as read and the entries the loader makes of them: a sheet of trucks with a padded
  header, a sheet whose trucks are called vehicles, a sheet whose only header is a blank,
  a sheet that has a column named like the source-file column of the output, a sheet two
  of whose headers coincide once they are stripped, and two sheets that record payment,
  one by booleans and one by numbers.
\<close>

abbreviation raw_trucks :: frame where
  "raw_trucks \<equiv> \<lparr>nrows = 2, cols = [(''Truck'', [Text ''T1'', Text ''T2'']),
                                    ('' Note '', [Null, Text ''late''])]\<rparr>"

abbreviation info_trucks :: data_info where
  "info_trucks \<equiv>
     \<lparr>file_path = ''d/a.xlsx'', sheet_name = ''S1'',
      original_columns = [''Truck'', ''Note''],
      standardized_columns = [(''Truck'', ''truck''), (''Note'', ''note'')],
      dataframe = \<lparr>nrows = 2, cols = [(''Truck'', [Text ''T1'', Text ''T2'']),
                                       (''Note'', [Null, Text ''late''])]\<rparr>,
      row_count = 2\<rparr>"

abbreviation info_vehicles :: data_info where
  "info_vehicles \<equiv>
     \<lparr>file_path = ''d/b.xlsx'', sheet_name = ''S1'',
      original_columns = [''vehicle''],
      standardized_columns = [(''vehicle'', ''truck'')],
      dataframe = \<lparr>nrows = 2, cols = [(''vehicle'', [Text ''T1'', Text ''T9''])]\<rparr>,
      row_count = 2\<rparr>"

abbreviation raw_blank :: frame where
  "raw_blank \<equiv> \<lparr>nrows = 2, cols = [('' '', [Text ''x'', Text ''y''])]\<rparr>"

abbreviation info_blank :: data_info where
  "info_blank \<equiv>
     \<lparr>file_path = ''d/b.xlsx'', sheet_name = ''S3'',
      original_columns = [[]],
      standardized_columns = [],
      dataframe = \<lparr>nrows = 2, cols = [([], [Text ''x'', Text ''y''])]\<rparr>,
      row_count = 2\<rparr>"

abbreviation info_source :: data_info where
  "info_source \<equiv>
     \<lparr>file_path = ''d/c.xlsx'', sheet_name = ''S'',
      original_columns = [''source_file''],
      standardized_columns = [(''source_file'', ''source_file'')],
      dataframe = \<lparr>nrows = 2, cols = [(''source_file'', [Text ''x'', Text ''y''])]\<rparr>,
      row_count = 2\<rparr>"

abbreviation raw_twins :: frame where
  "raw_twins \<equiv> \<lparr>nrows = 1, cols = [(''Truck'', [Text ''T1'']), (''Truck '', [Text ''T2''])]\<rparr>"

abbreviation info_twins :: data_info where
  "info_twins \<equiv>
     \<lparr>file_path = ''d/e.xlsx'', sheet_name = ''S'',
      original_columns = [''Truck'', ''Truck''],
      standardized_columns = [(''Truck'', ''truck'')],
      dataframe = \<lparr>nrows = 1, cols = [(''Truck'', [Text ''T1'']), (''Truck'', [Text ''T2''])]\<rparr>,
      row_count = 1\<rparr>"

abbreviation files_twins :: "string \<Rightarrow> workbook option" where
  "files_twins \<equiv> map_of [(''d/e.xlsx'', [(''S'', Some raw_twins)])]"



abbreviation files_ab :: "string \<Rightarrow> workbook option" where
  "files_ab \<equiv> map_of [(''d/a.xlsx'', [(''S1'', Some raw_trucks)]),
                       (''d/b.xlsx'', [(''S2'', None), (''S3'', Some raw_blank)]),
                       (''d/c.xlsx'', [(''S'', Some (dataframe info_source))])]"

abbreviation env_blank :: env where
  "env_blank \<equiv>
     \<lparr>env_glob = (\<lambda>dir pattern. []), env_is_file = (\<lambda>path. True),
      env_read_workbook = files_ab, env_rank = count_list, env_clock = Suc,
      env_export_ok = True\<rparr>"

section \<open>Properties of the column normalizer\<close>

lemma starts_with_prefix: "starts_with k s = prefix k s"
  by (induction k s rule: starts_with.induct) auto

lemma str_contains_sublist: "str_contains k s = sublist k s"
  by (induction s) (auto simp: starts_with_prefix sublist_Cons_right)

lemma match_replacements_None:
  "match_replacements tbl t = None \<longleftrightarrow> (\<forall>i<length tbl. \<not> sublist (fst (tbl ! i)) t)"
proof (induction tbl)
  case Nil
  then show ?case by simp
next
  case (Cons kv tbl)
  obtain k v where kv: "kv = (k, v)" by (cases kv)
  show ?case
    using Cons.IH by (auto simp: kv str_contains_sublist All_less_Suc2)
qed

lemma match_replacements_first:
  "i < length tbl \<Longrightarrow> sublist (fst (tbl ! i)) t \<Longrightarrow>
   (\<forall>j<i. \<not> sublist (fst (tbl ! j)) t) \<Longrightarrow>
   match_replacements tbl t = Some (snd (tbl ! i))"
proof (induction tbl arbitrary: i)
  case Nil
  then show ?case by simp
next
  case (Cons kv tbl)
  obtain k v where kv: "kv = (k, v)" by (cases kv)
  show ?case
  proof (cases i)
    case 0
    with Cons.prems show ?thesis by (simp add: kv str_contains_sublist)
  next
    case (Suc n)
    from Cons.prems(3) Suc have k0: "\<not> sublist k t" by (auto simp: kv)
    from Cons.prems(3) Suc have "\<forall>j<n. \<not> sublist (fst (tbl ! j)) t" by auto
    with Cons.IH[of n] Cons.prems(1,2) Suc
    have "match_replacements tbl t = Some (snd (tbl ! n))" by simp
    with k0 Suc show ?thesis by (simp add: kv str_contains_sublist)
  qed
qed

text \<open>
  Claim C3. \<open>analyze_column\<close> returns the empty string for a null-like header; otherwise
  the value of the first entry of \<open>replacements\<close>, in the order of the table, whose key
  occurs as a substring of the trimmed, lower-cased header; and the trimmed, lower-cased
  header itself when no key occurs in it.
\<close>

theorem analyze_column_first_match:
  "analyze_column Null_like = [] \<and>
   (\<forall>i<length replacements.
      sublist (fst (replacements ! i)) (str_lower (str_strip s)) \<and>
      (\<forall>j<i. \<not> sublist (fst (replacements ! j)) (str_lower (str_strip s)))
      \<longrightarrow> analyze_column (Str s) = snd (replacements ! i)) \<and>
   ((\<forall>i<length replacements. \<not> sublist (fst (replacements ! i)) (str_lower (str_strip s)))
      \<longrightarrow> analyze_column (Str s) = str_lower (str_strip s))"
proof (intro conjI allI impI)
  show "analyze_column Null_like = []" by (simp add: analyze_column.simps)
next
  fix i
  assume "i < length replacements"
    and "sublist (fst (replacements ! i)) (str_lower (str_strip s)) \<and>
      (\<forall>j<i. \<not> sublist (fst (replacements ! j)) (str_lower (str_strip s)))"
  then have "match_replacements replacements (str_lower (str_strip s)) = Some (snd (replacements ! i))"
    by (intro match_replacements_first) auto
  then show "analyze_column (Str s) = snd (replacements ! i)"
    by (simp add: analyze_column.simps)
next
  assume "\<forall>i<length replacements. \<not> sublist (fst (replacements ! i)) (str_lower (str_strip s))"
  then have "match_replacements replacements (str_lower (str_strip s)) = None"
    by (simp add: match_replacements_None)
  then show "analyze_column (Str s) = str_lower (str_strip s)"
    by (simp add: analyze_column.simps)
qed

theorem analyze_column_first_match_witness:
  "9 < length replacements \<and>
   sublist (fst (replacements ! 9)) (str_lower (str_strip '' GPS Fix '')) \<and>
   analyze_column (Str '' GPS Fix '') = snd (replacements ! 9) \<and>
   snd (replacements ! 9) = ''location'' \<and>
   analyze_column (Str '' Remarks '') = str_lower (str_strip '' Remarks '') \<and>
   str_lower (str_strip '' Remarks '') = ''remarks''"
proof -
  have len: "length replacements = 37" by (simp add: replacements_def)
  have a: "sublist (fst (replacements ! 9)) (str_lower (str_strip '' GPS Fix ''))"
    by code_simp
  have "\<forall>j \<in> set [0..<9]. \<not> sublist (fst (replacements ! j)) (str_lower (str_strip '' GPS Fix ''))"
    by code_simp
  then have b: "\<forall>j<9. \<not> sublist (fst (replacements ! j)) (str_lower (str_strip '' GPS Fix ''))"
    by simp
  have "\<forall>i \<in> set [0..<37]. \<not> sublist (fst (replacements ! i)) (str_lower (str_strip '' Remarks ''))"
    by code_simp
  then have c: "\<forall>i<length replacements. \<not> sublist (fst (replacements ! i)) (str_lower (str_strip '' Remarks ''))"
    by (simp add: len)
  have d: "snd (replacements ! 9) = ''location''" by code_simp
  have e: "str_lower (str_strip '' Remarks '') = ''remarks''" by code_simp
  from analyze_column_first_match[of "'' GPS Fix ''"] a b len
  have f: "analyze_column (Str '' GPS Fix '') = snd (replacements ! 9)" by simp
  from analyze_column_first_match[of "'' Remarks ''"] c
  have g: "analyze_column (Str '' Remarks '') = str_lower (str_strip '' Remarks '')" by blast
  from a d e f g len show ?thesis by simp
qed

text \<open>
  The table is scanned in order, so an entry whose key contains the key of an earlier entry
  never decides the result. This holds of the four entries for \<open>''truck_number''\<close> (their
  keys contain \<open>''truck''\<close>) and of the entry for \<open>''datetime''\<close> (its key contains
  \<open>''time''\<close>): neither value is ever returned.
\<close>

text \<open>
  The table is scanned in order, so an entry whose key contains the key of an earlier entry
  never decides the result. This holds of the four entries for \<open>''truck_number''\<close> (their
  keys contain \<open>''truck''\<close>) and of the entry for \<open>''datetime''\<close> (its key contains
  \<open>''time''\<close>): neither value is ever returned.
\<close>

lemma match_replacements_Some:
  "match_replacements tbl t = Some v \<Longrightarrow>
   \<exists>i<length tbl. v = snd (tbl ! i) \<and> sublist (fst (tbl ! i)) t \<and>
      (\<forall>j<i. \<not> sublist (fst (tbl ! j)) t)"
proof (induction tbl)
  case Nil
  then show ?case by simp
next
  case (Cons kv tbl)
  obtain k w where kv: "kv = (k, w)" by (cases kv)
  show ?case
  proof (cases "sublist k t")
    case True
    with Cons.prems have "v = w" by (simp add: kv str_contains_sublist)
    with True have "0 < length (kv # tbl) \<and> v = snd ((kv # tbl) ! 0) \<and>
        sublist (fst ((kv # tbl) ! 0)) t \<and> (\<forall>j<0. \<not> sublist (fst ((kv # tbl) ! j)) t)"
      by (simp add: kv)
    then show ?thesis by blast
  next
    case False
    with Cons.prems have "match_replacements tbl t = Some v"
      by (simp add: kv str_contains_sublist)
    from Cons.IH[OF this] obtain i where i: "i < length tbl" "v = snd (tbl ! i)"
      "sublist (fst (tbl ! i)) t" "\<forall>j<i. \<not> sublist (fst (tbl ! j)) t"
      by blast
    have "\<forall>j<Suc i. \<not> sublist (fst ((kv # tbl) ! j)) t"
    proof (intro allI impI)
      fix j assume "j < Suc i"
      then show "\<not> sublist (fst ((kv # tbl) ! j)) t"
        using False i(4) by (cases j) (auto simp: kv)
    qed
    with i(1,2,3) have "Suc i < length (kv # tbl) \<and> v = snd ((kv # tbl) ! Suc i) \<and>
        sublist (fst ((kv # tbl) ! Suc i)) t \<and>
        (\<forall>j<Suc i. \<not> sublist (fst ((kv # tbl) ! j)) t)"
      by simp
    then show ?thesis by blast
  qed
qed

lemma match_replacements_before:
  assumes "j < length tbl" and "sublist (fst (tbl ! j)) t"
  shows "\<exists>i\<le>j. match_replacements tbl t = Some (snd (tbl ! i))"
proof (cases "match_replacements tbl t")
  case None
  with assms show ?thesis by (simp add: match_replacements_None)
next
  case (Some v)
  from match_replacements_Some[OF this] obtain i where i: "i < length tbl" "v = snd (tbl ! i)"
    "\<forall>j<i. \<not> sublist (fst (tbl ! j)) t"
    by blast
  from i(3) assms(2) have "\<not> j < i" by blast
  then have "i \<le> j" by simp
  with Some i(2) show ?thesis by blast
qed

lemma length_replacements: "length replacements = 37"
  by (simp add: replacements_def)

lemma first_values:
  "i \<le> 19 \<Longrightarrow> snd (replacements ! i) \<noteq> ''datetime''"
  "snd (replacements ! 0) \<noteq> ''truck_number''"
proof -
  have "\<forall>i \<in> set [0..<20]. snd (replacements ! i) \<noteq> ''datetime''" by code_simp
  then show "i \<le> 19 \<Longrightarrow> snd (replacements ! i) \<noteq> ''datetime''" by simp
  show "snd (replacements ! 0) \<noteq> ''truck_number''" by code_simp
qed

lemma shadowing_keys:
  "fst (replacements ! 0) = ''truck''" "fst (replacements ! 18) = ''date''"
  "fst (replacements ! 19) = ''time''"
  by code_simp+

lemma shadowed_keys:
  assumes "(k, v) \<in> set replacements"
  shows "v = ''truck_number'' \<Longrightarrow> sublist ''truck'' k"
    and "v = ''datetime'' \<Longrightarrow> sublist ''time'' k"
proof -
  have "\<forall>kv \<in> set replacements. snd kv = ''truck_number'' \<longrightarrow> sublist ''truck'' (fst kv)"
    by code_simp
  with assms show "v = ''truck_number'' \<Longrightarrow> sublist ''truck'' k" by force
  have "\<forall>kv \<in> set replacements. snd kv = ''datetime'' \<longrightarrow> sublist ''time'' (fst kv)"
    by code_simp
  with assms show "v = ''datetime'' \<Longrightarrow> sublist ''time'' k" by force
qed

lemma analyze_column_never_shadowed:
  "analyze_column h \<noteq> ''truck_number'' \<and> analyze_column h \<noteq> ''datetime''"
proof (cases h)
  case Null_like
  then show ?thesis by (simp add: analyze_column.simps)
next
  case (Str s)
  let ?t = "str_lower (str_strip s)"
  show ?thesis
  proof (cases "match_replacements replacements ?t")
    case None
    then have no: "\<forall>i<length replacements. \<not> sublist (fst (replacements ! i)) ?t"
      by (simp add: match_replacements_None)
    from no have "\<not> sublist (fst (replacements ! 0)) ?t"
      by (simp add: length_replacements)
    then have "\<not> sublist ''truck'' ?t" by (simp add: shadowing_keys(1))
    moreover have "sublist ''truck'' ''truck_number''" by code_simp
    ultimately have a: "?t \<noteq> ''truck_number''" by auto
    from no have "\<not> sublist (fst (replacements ! 18)) ?t"
      by (simp add: length_replacements)
    then have "\<not> sublist ''date'' ?t" by (simp add: shadowing_keys(2))
    moreover have "sublist ''date'' ''datetime''" by code_simp
    ultimately have b: "?t \<noteq> ''datetime''" by auto
    from a b None show ?thesis by (simp add: Str analyze_column.simps)
  next
    case (Some v)
    from match_replacements_Some[OF Some] obtain i where i: "i < length replacements"
      "v = snd (replacements ! i)" "sublist (fst (replacements ! i)) ?t"
      by blast
    then have mem: "(fst (replacements ! i), v) \<in> set replacements"
      by (metis nth_mem prod.collapse)
    have a: "v \<noteq> ''truck_number''"
    proof
      assume v: "v = ''truck_number''"
      with mem have "sublist ''truck'' (fst (replacements ! i))" by (rule shadowed_keys(1))
      then have "sublist ''truck'' ?t" using i(3) by (rule sublist_order.order_trans)
      then have "sublist (fst (replacements ! 0)) ?t" by (simp add: shadowing_keys(1))
      with match_replacements_before[of 0 replacements ?t]
      have "match_replacements replacements ?t = Some (snd (replacements ! 0))"
        by (simp add: length_replacements)
      with Some v first_values(2) show False by simp
    qed
    have b: "v \<noteq> ''datetime''"
    proof
      assume v: "v = ''datetime''"
      with mem have "sublist ''time'' (fst (replacements ! i))" by (rule shadowed_keys(2))
      then have "sublist ''time'' ?t" using i(3) by (rule sublist_order.order_trans)
      then have "sublist (fst (replacements ! 19)) ?t" by (simp add: shadowing_keys(3))
      with match_replacements_before[of 19 replacements ?t]
      obtain i' where "i' \<le> 19" "match_replacements replacements ?t = Some (snd (replacements ! i'))"
        by (auto simp: length_replacements)
      with Some v first_values(1)[of i'] show False by simp
    qed
    from a b Some show ?thesis by (simp add: Str analyze_column.simps)
  qed
qed

text \<open>Headers that consist of whitespace only.\<close>

lemma str_strip_whitespace: "\<forall>c \<in> set s. isspace c \<Longrightarrow> str_strip s = []"
  by (auto simp: str_strip_def dest: set_dropWhileD)

lemma analyze_column_empty: "analyze_column (Str []) = []"
  by (simp add: analyze_column.simps str_strip_def str_lower_def replacements_def)

lemma analyze_column_whitespace:
  "\<forall>c \<in> set s. isspace c \<Longrightarrow> analyze_column (Str s) = []"
  using analyze_column_empty
  by (simp add: analyze_column.simps str_strip_whitespace)

text \<open>
  The function is idempotent, and it does not depend on the case of the letters of the
  header nor on whitespace around it.
\<close>

lemma lower_char_idem: "lower_char (lower_char c) = lower_char c"
  by (simp add: lower_char_def Let_def)

lemma isspace_lower_char: "isspace (lower_char c) = isspace c"
  by (auto simp: lower_char_def isspace_def Let_def)

lemma str_lower_idem: "str_lower (str_lower s) = str_lower s"
  by (simp add: str_lower_def lower_char_idem)

lemma dropWhile_isspace_lower:
  "dropWhile isspace (str_lower s) = str_lower (dropWhile isspace s)"
  by (simp add: str_lower_def dropWhile_map comp_def isspace_lower_char)

lemma str_strip_lower: "str_strip (str_lower s) = str_lower (str_strip s)"
proof -
  have "rev (str_lower s) = str_lower (rev s)" for s
    by (simp add: str_lower_def rev_map)
  then show ?thesis
    by (simp add: str_strip_def dropWhile_isspace_lower)
qed

lemma dropWhile_rev_dropWhile:
  "dropWhile P (rev (dropWhile P (rev (dropWhile P s)))) = rev (dropWhile P (rev (dropWhile P s)))"
proof (cases "dropWhile P (rev (dropWhile P s)) = []")
  case True
  show ?thesis unfolding True by simp
next
  case False
  let ?a = "dropWhile P s"
  let ?b = "dropWhile P (rev ?a)"
  have a: "?a \<noteq> []"
  proof
    assume e: "?a = []"
    have "?b = []" unfolding e by simp
    with False show False by simp
  qed
  then have "\<not> P (hd ?a)" by (rule hd_dropWhile)
  moreover have "rev ?a = takeWhile P (rev ?a) @ ?b" by simp
  then have "last (rev ?a) = last ?b" using False by (metis last_appendR)
  then have "hd ?a = last ?b" using a by (simp add: last_rev)
  ultimately have "\<not> P (hd (rev ?b))" using False by (simp add: hd_rev)
  with False show ?thesis by (cases "rev ?b") auto
qed

lemma str_strip_idem: "str_strip (str_strip s) = str_strip s"
proof -
  have "str_strip (str_strip s) =
      rev (dropWhile isspace (rev (dropWhile isspace
        (rev (dropWhile isspace (rev (dropWhile isspace s)))))))"
    by (simp add: str_strip_def)
  also have "\<dots> = rev (dropWhile isspace (rev (rev (dropWhile isspace (rev (dropWhile isspace s))))))"
    by (simp only: dropWhile_rev_dropWhile)
  also have "\<dots> = str_strip s"
    by (simp add: str_strip_def)
  finally show ?thesis .
qed

lemma cleaned_fixed: "str_lower (str_strip (str_lower (str_strip s))) = str_lower (str_strip s)"
  by (simp add: str_strip_lower str_strip_idem str_lower_idem)

lemma reachable_values_fixed:
  assumes "i < length replacements"
    and "\<forall>j<i. \<not> sublist (fst (replacements ! j)) (fst (replacements ! i))"
  shows "analyze_column (Str (snd (replacements ! i))) = snd (replacements ! i)"
proof -
  have "\<forall>i \<in> set [0..<37].
      (\<exists>j \<in> set [0..<i]. sublist (fst (replacements ! j)) (fst (replacements ! i))) \<or>
      analyze_column (Str (snd (replacements ! i))) = snd (replacements ! i)"
    by code_simp
  then have "(\<exists>j<i. sublist (fst (replacements ! j)) (fst (replacements ! i))) \<or>
      analyze_column (Str (snd (replacements ! i))) = snd (replacements ! i)"
    using assms(1) by (simp add: length_replacements Bex_def)
  with assms(2) show ?thesis by blast
qed

lemma analyze_column_idempotent:
  "analyze_column (Str (analyze_column h)) = analyze_column h"
proof (cases h)
  case Null_like
  then show ?thesis by (simp add: analyze_column.simps(1) analyze_column_empty)
next
  case (Str s)
  let ?t = "str_lower (str_strip s)"
  show ?thesis
  proof (cases "match_replacements replacements ?t")
    case None
    then have r: "analyze_column (Str s) = ?t" by (simp add: analyze_column.simps)
    have "analyze_column (Str ?t) = ?t"
      using None by (simp add: analyze_column.simps cleaned_fixed)
    with r show ?thesis by (simp add: Str)
  next
    case (Some v)
    then have r: "analyze_column (Str s) = v" by (simp add: analyze_column.simps)
    from match_replacements_Some[OF Some] obtain i where i: "i < length replacements"
      "v = snd (replacements ! i)" "sublist (fst (replacements ! i)) ?t"
      "\<forall>j<i. \<not> sublist (fst (replacements ! j)) ?t"
      by blast
    have "\<forall>j<i. \<not> sublist (fst (replacements ! j)) (fst (replacements ! i))"
    proof (intro allI impI notI)
      fix j assume "j < i" and "sublist (fst (replacements ! j)) (fst (replacements ! i))"
      from this(2) i(3) have "sublist (fst (replacements ! j)) ?t"
        by (rule sublist_order.order_trans)
      with i(4) \<open>j < i\<close> show False by blast
    qed
    from reachable_values_fixed[OF i(1) this] i(2) r show ?thesis by (simp add: Str)
  qed
qed

lemma analyze_column_case_insensitive:
  "str_lower s = str_lower s' \<Longrightarrow> analyze_column (Str s) = analyze_column (Str s')"
proof -
  assume "str_lower s = str_lower s'"
  then have "str_strip (str_lower s) = str_strip (str_lower s')" by simp
  then have "str_lower (str_strip s) = str_lower (str_strip s')"
    by (simp only: str_strip_lower)
  then show ?thesis by (simp add: analyze_column.simps)
qed

lemma str_strip_padding:
  assumes "\<forall>c \<in> set p. isspace c" and "\<forall>c \<in> set q. isspace c"
  shows "str_strip (p @ s @ q) = str_strip s"
proof -
  from assms(1) have l: "dropWhile isspace (p @ s @ q) = dropWhile isspace (s @ q)"
    by (simp add: dropWhile_append)
  show ?thesis
  proof (cases "dropWhile isspace s = []")
    case True
    then have "\<forall>c \<in> set s. isspace c" by (simp add: dropWhile_eq_Nil_conv)
    with assms(2) have "\<forall>c \<in> set (s @ q). isspace c" by auto
    then have "dropWhile isspace (s @ q) = []" by (simp only: dropWhile_eq_Nil_conv)
    with l have e: "dropWhile isspace (p @ s @ q) = []" by simp
    show ?thesis unfolding str_strip_def e True ..
  next
    case False
    then obtain x where x: "x \<in> set s" "\<not> isspace x"
      by (auto simp: dropWhile_eq_Nil_conv)
    then have "dropWhile isspace (s @ q) = dropWhile isspace s @ q"
      by (auto simp: dropWhile_append)
    moreover from assms(2) have "dropWhile isspace (rev q @ ys) = dropWhile isspace ys" for ys
      by (simp add: dropWhile_append)
    ultimately show ?thesis using l by (simp add: str_strip_def)
  qed
qed

lemma analyze_column_ignores_padding:
  "\<forall>c \<in> set p. isspace c \<Longrightarrow> \<forall>c \<in> set q. isspace c \<Longrightarrow>
   analyze_column (Str (p @ s @ q)) = analyze_column (Str s)"
  by (simp add: analyze_column.simps str_strip_padding)

text \<open>
  Claim C4. The claim says that \<^verbatim>\<open>"Truck_No"\<close> is standardized to \<^verbatim>\<open>"truck_number"\<close>,
  \<^verbatim>\<open>"TRK#"\<close> to \<^verbatim>\<open>"truck"\<close>, and a header containing \<^verbatim>\<open>"timestamp"\<close> to
  \<^verbatim>\<open>"datetime"\<close>. The table has the entries \<^verbatim>\<open>'truck_no': 'truck_number'\<close> and
  \<^verbatim>\<open>'timestamp': 'datetime'\<close>, but the scan reaches \<^verbatim>\<open>'truck'\<close> and \<^verbatim>\<open>'time'\<close> first:
  the function returns \<open>''truck''\<close> for \<open>''Truck_No''\<close> and \<open>''time''\<close> for
  \<open>''timestamp''\<close>. The other parts of the claim hold: \<open>''TRK#''\<close> gives \<open>''truck''\<close>,
  and the lemmas above show idempotence and independence of case and surrounding
  whitespace.
\<close>

theorem analyze_column_scan_order:
  "analyze_column (Str ''Truck_No'') = ''truck'' \<and>
   analyze_column (Str ''TRK#'') = ''truck'' \<and>
   analyze_column (Str ''timestamp'') = ''time''"
  by code_simp

section \<open>Properties of frames\<close>

lemma nrows_set_scalar: "nrows (set_scalar df key v) = nrows df"
  by (simp add: set_scalar_def)

lemma nrows_set_series:
  "nrows (set_series df key vs) = (if nrows df = 0 \<and> vs \<noteq> [] then length vs else nrows df)"
  by (simp add: set_series_def ensure_valid_index_def Let_def)

lemma columns_update:
  "map fst (AList.update k v al) = (if k \<in> set (map fst al) then map fst al else map fst al @ [k])"
  by (induction al) auto

lemma columns_set_scalar:
  "columns (set_scalar df key v) =
     (if key \<in> set (columns df) then columns df else columns df @ [key])"
  by (simp add: set_scalar_def columns_def columns_update)

lemma columns_ensure_valid_index: "columns (ensure_valid_index df vs) = columns df"
  by (auto simp: ensure_valid_index_def columns_def split_def)

lemma columns_set_series:
  "columns (set_series df key vs) =
     (if key \<in> set (columns df) then columns df else columns df @ [key])"
  using columns_ensure_valid_index[of df vs]
  by (simp add: set_series_def columns_def columns_update Let_def)

lemma length_align: "length (align n vs) = n"
  by (simp add: align_def)

lemma set_update_subset: "set (map snd (AList.update k v al)) \<subseteq> insert v (set (map snd al))"
  by (induction al) auto

lemma frame_ok_set_scalar: "frame_ok df \<Longrightarrow> frame_ok (set_scalar df key v)"
  unfolding frame_ok_def
proof (intro conjI ballI)
  assume ok: "distinct (columns df) \<and> (\<forall>vs\<in>set (map snd (cols df)). length vs = nrows df)"
  then show "distinct (columns (set_scalar df key v))"
    by (simp add: columns_set_scalar)
  fix vs assume "vs \<in> set (map snd (cols (set_scalar df key v)))"
  then have "vs \<in> insert (replicate (nrows df) v) (set (map snd (cols df)))"
    using set_update_subset[of key "replicate (nrows df) v" "cols df"]
    by (auto simp: set_scalar_def)
  with ok show "length vs = nrows (set_scalar df key v)"
    by (auto simp: nrows_set_scalar)
qed

lemma frame_ok_ensure_valid_index: "frame_ok df \<Longrightarrow> frame_ok (ensure_valid_index df vs)"
  by (auto simp: frame_ok_def ensure_valid_index_def columns_def split_def comp_def)

lemma frame_ok_set_series: "frame_ok df \<Longrightarrow> frame_ok (set_series df key vs)"
proof -
  assume "frame_ok df"
  then have ok: "frame_ok (ensure_valid_index df vs)" by (rule frame_ok_ensure_valid_index)
  let ?d = "ensure_valid_index df vs"
  have c: "columns (set_series df key vs) =
     (if key \<in> set (columns ?d) then columns ?d else columns ?d @ [key])"
    by (simp add: set_series_def columns_def columns_update Let_def)
  show ?thesis
    unfolding frame_ok_def
  proof (intro conjI ballI)
    show "distinct (columns (set_series df key vs))"
      using ok c by (simp add: frame_ok_def)
    fix ws assume "ws \<in> set (map snd (cols (set_series df key vs)))"
    then have "ws \<in> insert (align (nrows ?d) vs) (set (map snd (cols ?d)))"
      using set_update_subset[of key "align (nrows ?d) vs" "cols ?d"]
      by (auto simp: set_series_def Let_def)
    with ok show "length ws = nrows (set_series df key vs)"
      by (auto simp: frame_ok_def length_align set_series_def Let_def)
  qed
qed

lemma frame_ok_empty: "frame_ok empty_frame"
  by (simp add: frame_ok_def empty_frame_def columns_def)

lemma frame_ok_project_column: "frame_ok sdf \<Longrightarrow> frame_ok (project_column df sdf item)"
  by (auto simp: project_column_def frame_ok_set_series frame_ok_set_scalar
      split: prod.splits option.splits)

lemma frame_ok_fold_project:
  "frame_ok sdf \<Longrightarrow> frame_ok (fold (\<lambda>item s. project_column df s item) m sdf)"
  by (induction m arbitrary: sdf) (auto simp: frame_ok_project_column)

lemma frame_ok_standardize_frame: "frame_ok (standardize_frame m df)"
  by (simp add: standardize_frame_def frame_ok_fold_project frame_ok_empty)

lemma frame_ok_project_table: "frame_ok (project_table m info now)"
  by (simp add: project_table_def Let_def frame_ok_set_scalar frame_ok_standardize_frame)

lemma columns_project_column:
  "columns (project_column df sdf (k, orig)) =
     (if k \<in> set (columns sdf) then columns sdf else columns sdf @ [k])"
  by (auto simp: project_column_def columns_set_series columns_set_scalar split: option.splits)

lemma columns_fold_project:
  "distinct (map fst m) \<Longrightarrow> set (map fst m) \<inter> set (columns sdf) = {} \<Longrightarrow>
   columns (fold (\<lambda>item s. project_column df s item) m sdf) = columns sdf @ map fst m"
proof (induction m arbitrary: sdf)
  case Nil
  then show ?case by simp
next
  case (Cons item m)
  obtain k orig where item: "item = (k, orig)" by (cases item)
  from Cons.prems have knew: "k \<notin> set (columns sdf)" by (auto simp: item)
  then have c: "columns (project_column df sdf item) = columns sdf @ [k]"
    by (simp add: item columns_project_column)
  from Cons.prems have d: "distinct (map fst m)" by simp
  from Cons.prems have "set (map fst m) \<inter> set (columns sdf @ [k]) = {}"
    by (auto simp: item)
  then have "set (map fst m) \<inter> set (columns (project_column df sdf item)) = {}"
    by (simp only: c)
  from Cons.IH[OF d this] c show ?case by (simp add: item)
qed

lemma columns_standardize_frame:
  "distinct (map fst m) \<Longrightarrow> columns (standardize_frame m df) = map fst m"
  using columns_fold_project[of m empty_frame df]
  by (simp add: standardize_frame_def empty_frame_def columns_def)

lemma columns_project_table:
  "distinct (map fst m) \<Longrightarrow>
   columns (project_table m info now) = map fst m @ filter (\<lambda>p. p \<notin> set (map fst m)) provenance"
  by (simp add: project_table_def Let_def columns_set_scalar columns_standardize_frame provenance_def)

lemma nrows_project_table: "nrows (project_table m info now) = nrows (standardize_frame m (dataframe info))"
  by (simp add: project_table_def Let_def nrows_set_scalar)

lemma map_of_cols_None: "map_of (cols df) c = None \<longleftrightarrow> c \<notin> set (columns df)"
  by (simp add: columns_def map_of_eq_None_iff)

lemma find_similar_None:
  "find_similar al k = None \<longleftrightarrow> (\<forall>c \<in> set (map fst al). analyze_column (Str c) \<noteq> k)"
  by (induction al) (auto split: if_splits)

lemma find_similar_Some: "find_similar al k = Some vs \<Longrightarrow> vs \<in> set (map snd al)"
  by (induction al) (auto split: if_splits)

lemma frame_ok_column_length:
  "frame_ok df \<Longrightarrow> map_of (cols df) c = Some vs \<Longrightarrow> length vs = nrows df"
  by (auto simp: frame_ok_def dest!: map_of_SomeD)

lemma nrows_project_column:
  assumes "frame_ok df"
  shows "nrows (project_column df sdf item) =
     (if nrows sdf = 0 \<and> found_in df item then nrows df else nrows sdf)"
proof -
  obtain k orig where item: "item = (k, orig)" by (cases item)
  show ?thesis
  proof (cases "map_of (cols df) orig")
    case (Some vs)
    with assms have len: "length vs = nrows df" by (simp add: frame_ok_column_length)
    from Some have "found_in df item"
      by (auto simp: found_in_def item columns_def dest: map_of_SomeD intro: rev_image_eqI)
    with Some len show ?thesis
      by (auto simp: project_column_def item nrows_set_series)
  next
    case None
    then have no: "orig \<notin> set (columns df)" by (simp add: map_of_cols_None)
    show ?thesis
    proof (cases "find_similar (cols df) k")
      case None': None
      then have "\<not> found_in df item"
        using no by (auto simp: found_in_def item find_similar_None columns_def)
      with None None' show ?thesis
        by (simp add: project_column_def item nrows_set_scalar)
    next
      case (Some vs)
      then have "vs \<in> set (map snd (cols df))" by (rule find_similar_Some)
      with assms have len: "length vs = nrows df" by (auto simp: frame_ok_def)
      from Some have "found_in df item"
        using find_similar_None[of "cols df" k] by (auto simp: found_in_def item columns_def)
      with None Some len show ?thesis
        by (auto simp: project_column_def item nrows_set_series)
    qed
  qed
qed

lemma nrows_fold_project:
  assumes "frame_ok df"
  shows "nrows (fold (\<lambda>item s. project_column df s item) m sdf) =
     (if nrows sdf = 0 \<and> (\<exists>item \<in> set m. found_in df item) then nrows df else nrows sdf)"
proof (induction m arbitrary: sdf)
  case Nil
  then show ?case by simp
next
  case (Cons item m)
  show ?case
    by (auto simp: Cons.IH nrows_project_column[OF assms])
qed

lemma nrows_standardize_frame:
  "frame_ok df \<Longrightarrow>
   nrows (standardize_frame m df) = (if \<exists>item \<in> set m. found_in df item then nrows df else 0)"
  by (simp add: standardize_frame_def nrows_fold_project empty_frame_def)

section \<open>Exceptions of the projection\<close>

text \<open>
  A round of the loop over the mapping raises only by selecting a label that the table
  carries several times. Whenever a round, the loop body or the method returns a frame, it
  is the frame of the functions without exceptions; and in tables with pairwise different
  labels nothing is raised.
\<close>

lemma filter_label_first:
  "map snd (filter (\<lambda>(c, vs). c = l) al) = v # rest \<Longrightarrow> map_of al l = Some v"
  by (induction al) (auto split: if_splits)

lemma filter_label_distinct:
  "distinct (map fst al) \<Longrightarrow> map_of al l = Some v \<Longrightarrow>
   map snd (filter (\<lambda>(c, vs). c = l) al) = [v]"
proof (induction al)
  case Nil
  then show ?case by simp
next
  case (Cons a al)
  obtain c vs where a: "a = (c, vs)" by (cases a)
  show ?case
  proof (cases "c = l")
    case True
    with Cons.prems a have nl: "l \<notin> fst ` set al" and v: "vs = v" by auto
    from nl have "filter (\<lambda>(c, vs). c = l) al = []"
      by (force simp: filter_empty_conv)
    with True a v show ?thesis by simp
  next
    case False
    with Cons a show ?thesis by simp
  qed
qed

lemma setitem_getitem_Inr:
  assumes "setitem sdf key (getitem df l) = Inr f"
  shows "\<exists>vs. map_of (cols df) l = Some vs \<and> f = set_series sdf key vs"
proof (cases "map snd (filter (\<lambda>(c, vs). c = l) (cols df))")
  case Nil
  with assms show ?thesis by (simp add: getitem_def setitem_def)
next
  case (Cons v rest)
  then have m: "map_of (cols df) l = Some v" by (rule filter_label_first)
  show ?thesis
  proof (cases rest)
    case Nil
    with Cons assms have "f = set_series sdf key v" by (simp add: getitem_def setitem_def)
    with m show ?thesis by simp
  next
    case (Cons w rest')
    with \<open>map snd (filter (\<lambda>(c, vs). c = l) (cols df)) = v # rest\<close> assms show ?thesis
      by (simp add: getitem_def setitem_def)
  qed
qed

lemma setitem_getitem_distinct:
  "distinct (columns df) \<Longrightarrow> map_of (cols df) l = Some vs \<Longrightarrow>
   setitem sdf key (getitem df l) = Inr (set_series sdf key vs)"
  by (simp add: getitem_def setitem_def columns_def filter_label_distinct)

lemma find_similar_label_Some:
  "find_similar_label cs k = Some l \<Longrightarrow> analyze_column (Str l) = k \<and> l \<in> set cs"
  by (induction cs) (auto split: if_splits)

lemma find_similar_label_None:
  "find_similar_label (map fst al) k = None \<longleftrightarrow> find_similar al k = None"
  by (induction al) auto

lemma find_similar_label_values:
  "find_similar_label (map fst al) k = Some l \<Longrightarrow> map_of al l = Some vs \<Longrightarrow>
   find_similar al k = Some vs"
proof (induction al)
  case Nil
  then show ?case by simp
next
  case (Cons a al)
  obtain c ws where a: "a = (c, ws)" by (cases a)
  show ?case
  proof (cases "analyze_column (Str c) = k")
    case True
    with Cons.prems a show ?thesis by simp
  next
    case False
    with Cons.prems a have l: "find_similar_label (map fst al) k = Some l" by simp
    then have "analyze_column (Str l) = k" by (simp add: find_similar_label_Some)
    with False have "c \<noteq> l" by auto
    with Cons.prems a have "map_of al l = Some vs" by simp
    with Cons.IH l False a show ?thesis by simp
  qed
qed

lemma project_column_checked_Inr:
  assumes "project_column_checked df sdf item = Inr f"
  shows "f = project_column df sdf item"
proof -
  obtain std_col orig_col where item: "item = (std_col, orig_col)" by (cases item)
  show ?thesis
  proof (cases "orig_col \<in> set (columns df)")
    case True
    with assms item have "setitem sdf std_col (getitem df orig_col) = Inr f"
      by (simp add: project_column_checked_def)
    then obtain vs where "map_of (cols df) orig_col = Some vs" "f = set_series sdf std_col vs"
      using setitem_getitem_Inr by blast
    with item show ?thesis by (simp add: project_column_def)
  next
    case False
    then have none: "map_of (cols df) orig_col = None" by (simp add: map_of_cols_None)
    show ?thesis
    proof (cases "find_similar_label (columns df) std_col")
      case None
      then have "find_similar (cols df) std_col = None"
        by (simp add: columns_def find_similar_label_None)
      with assms item False None none show ?thesis
        by (simp add: project_column_checked_def project_column_def)
    next
      case (Some l)
      with assms item False have "setitem sdf std_col (getitem df l) = Inr f"
        by (simp add: project_column_checked_def)
      then obtain vs where vs: "map_of (cols df) l = Some vs" "f = set_series sdf std_col vs"
        using setitem_getitem_Inr by blast
      from Some vs(1) have "find_similar (cols df) std_col = Some vs"
        by (simp add: columns_def find_similar_label_values)
      with item none vs(2) show ?thesis by (simp add: project_column_def)
    qed
  qed
qed

lemma project_column_checked_distinct:
  assumes "distinct (columns df)"
  shows "project_column_checked df sdf item = Inr (project_column df sdf item)"
proof -
  obtain std_col orig_col where item: "item = (std_col, orig_col)" by (cases item)
  show ?thesis
  proof (cases "orig_col \<in> set (columns df)")
    case True
    then obtain vs where vs: "map_of (cols df) orig_col = Some vs"
      using map_of_cols_None[of df orig_col] by (cases "map_of (cols df) orig_col") auto
    with True item setitem_getitem_distinct[OF assms vs] show ?thesis
      by (simp add: project_column_checked_def project_column_def)
  next
    case False
    then have none: "map_of (cols df) orig_col = None" by (simp add: map_of_cols_None)
    show ?thesis
    proof (cases "find_similar_label (columns df) std_col")
      case None
      then have "find_similar (cols df) std_col = None"
        by (simp add: columns_def find_similar_label_None)
      with item False None none show ?thesis
        by (simp add: project_column_checked_def project_column_def)
    next
      case (Some l)
      then have "l \<in> set (columns df)" by (simp add: find_similar_label_Some)
      then obtain vs where vs: "map_of (cols df) l = Some vs"
        using map_of_cols_None[of df l] by (cases "map_of (cols df) l") auto
      from Some vs have "find_similar (cols df) std_col = Some vs"
        by (simp add: columns_def find_similar_label_values)
      with item False Some none setitem_getitem_distinct[OF assms vs] show ?thesis
        by (simp add: project_column_checked_def project_column_def)
    qed
  qed
qed

lemma standardize_frame_checked_Inr:
  "standardize_frame_checked m df sdf = Inr f \<Longrightarrow>
   f = fold (\<lambda>item standardized_df. project_column df standardized_df item) m sdf"
proof (induction m arbitrary: sdf)
  case Nil
  then show ?case by simp
next
  case (Cons item m)
  show ?case
  proof (cases "project_column_checked df sdf item")
    case (Inl err)
    with Cons.prems show ?thesis by simp
  next
    case (Inr sdf')
    then have "sdf' = project_column df sdf item" by (rule project_column_checked_Inr)
    with Cons Inr show ?thesis by simp
  qed
qed

lemma standardize_frame_checked_distinct:
  "distinct (columns df) \<Longrightarrow>
   standardize_frame_checked m df sdf =
     Inr (fold (\<lambda>item standardized_df. project_column df standardized_df item) m sdf)"
  by (induction m arbitrary: sdf) (simp_all add: project_column_checked_distinct)

lemma project_table_checked_Inr:
  "project_table_checked m info now = Inr f \<Longrightarrow> f = project_table m info now"
  by (auto simp: project_table_checked_def project_table_def standardize_frame_def Let_def
      split: sum.splits dest: standardize_frame_checked_Inr)

lemma project_table_checked_distinct:
  "distinct (columns (dataframe info)) \<Longrightarrow>
   project_table_checked m info now = Inr (project_table m info now)"
  by (simp add: project_table_checked_def project_table_def standardize_frame_def Let_def
      standardize_frame_checked_distinct)

lemma project_all_checked_Inr:
  "project_all_checked m clk calls ds = Inr fs \<Longrightarrow> fs = project_all m clk calls ds"
proof (induction ds arbitrary: calls fs)
  case Nil
  then show ?case by simp
next
  case (Cons info ds)
  from Cons.prems obtain f rest where f: "project_table_checked m info (clk calls) = Inr f"
    and rest: "project_all_checked m clk (Suc calls) ds = Inr rest" and fs: "fs = f # rest"
    by (auto split: sum.splits)
  from f have "f = project_table m info (clk calls)" by (rule project_table_checked_Inr)
  moreover from rest have "rest = project_all m clk (Suc calls) ds" by (rule Cons.IH)
  ultimately show ?case using fs by simp
qed

lemma project_all_checked_distinct:
  "\<forall>info \<in> set ds. distinct (columns (dataframe info)) \<Longrightarrow>
   project_all_checked m clk calls ds = Inr (project_all m clk calls ds)"
  by (induction ds arbitrary: calls) (simp_all add: project_table_checked_distinct)

lemma project_all_checked_empty_mapping:
  "project_all_checked [] clk calls ds = Inr (project_all [] clk calls ds)"
  by (induction ds arbitrary: calls)
    (simp_all add: project_table_checked_def project_table_def standardize_frame_def Let_def)

text \<open>Selecting a label that the table carries several times raises, whatever has been
  projected before.\<close>

lemma length_filter_label:
  "length (filter (\<lambda>(c, vs). c = l) al) = count_list (map fst al) l"
  by (induction al) auto

lemma setitem_getitem_repeated:
  assumes "1 < count_list (columns df) l"
  shows "setitem sdf key (getitem df l) = Inl ValueError"
proof -
  from assms have "1 < length (map snd (filter (\<lambda>(c, vs). c = l) (cols df)))"
    by (simp add: length_filter_label columns_def)
  then obtain v w rest where "map snd (filter (\<lambda>(c, vs). c = l) (cols df)) = v # w # rest"
    by (cases "map snd (filter (\<lambda>(c, vs). c = l) (cols df))" rule: remdups_adj.cases) auto
  then show ?thesis by (simp add: getitem_def setitem_def)
qed

lemma project_column_checked_error:
  "project_column_checked df sdf item = Inl err \<Longrightarrow> err = ValueError"
  by (auto simp: project_column_checked_def getitem_def setitem_def
      split: prod.splits if_splits option.splits list.splits)

lemma standardize_frame_checked_repeated:
  assumes "(std_col, orig_col) \<in> set m" and "1 < count_list (columns df) orig_col"
  shows "standardize_frame_checked m df sdf = Inl ValueError"
  using assms(1)
proof (induction m arbitrary: sdf)
  case Nil
  then show ?case by simp
next
  case (Cons item m)
  from assms(2) have "count_list (columns df) orig_col \<noteq> 0" by simp
  then have mem: "orig_col \<in> set (columns df)" by (simp add: count_list_0_iff)
  show ?case
  proof (cases "project_column_checked df sdf item")
    case (Inl err)
    then have "err = ValueError" by (rule project_column_checked_error)
    with Inl show ?thesis by simp
  next
    case (Inr sdf')
    have "item \<noteq> (std_col, orig_col)"
    proof
      assume "item = (std_col, orig_col)"
      with mem setitem_getitem_repeated[OF assms(2)] have
        "project_column_checked df sdf item = Inl ValueError"
        by (simp add: project_column_checked_def)
      with Inr show False by simp
    qed
    with Cons.prems have "(std_col, orig_col) \<in> set m" by auto
    then have "standardize_frame_checked m df sdf' = Inl ValueError" by (rule Cons.IH)
    with Inr show ?thesis by simp
  qed
qed

lemma project_table_checked_repeated:
  "(std_col, orig_col) \<in> set m \<Longrightarrow> 1 < count_list (columns (dataframe info)) orig_col \<Longrightarrow>
   project_table_checked m info now = Inl ValueError"
  by (simp add: project_table_checked_def standardize_frame_checked_repeated)

lemma merge_dataframes_checked_Inr:
  "merge_dataframes_checked clk ds m = Inr M \<Longrightarrow> M = merge_dataframes clk ds m"
  by (auto simp: merge_dataframes_checked_def merge_dataframes_def
      split: sum.splits dest!: project_all_checked_Inr)

lemma merge_dataframes_checked_distinct:
  "\<forall>info \<in> set ds. distinct (columns (dataframe info)) \<Longrightarrow>
   merge_dataframes_checked clk ds m = Inr (merge_dataframes clk ds m)"
  by (simp add: merge_dataframes_checked_def merge_dataframes_def project_all_checked_distinct)

lemma merge_dataframes_checked_empty_mapping:
  "merge_dataframes_checked clk ds [] = Inr (merge_dataframes clk ds [])"
  by (simp add: merge_dataframes_checked_def merge_dataframes_def
      project_all_checked_empty_mapping)

section \<open>Projection of one table\<close>

text \<open>
  Claim C1 as stated fails on the code in two ways. The mapping built from a sheet with a
  column \<^verbatim>\<open>source_file\<close> has the key \<open>''source_file''\<close>; the projection writes the
  file name into that same column, so the projected table has \<open>len(mapping) + 2\<close> columns.
  And a table none of whose columns is found for any entry of the mapping (here a sheet
  whose only header is a blank) receives scalars only: its projection keeps the empty index
  and has no rows, while the table has two.
\<close>

theorem project_table_shape_counterexample:
  "extract_dataframes files_ab [''d/c.xlsx''] = [info_source] \<and>
   create_column_mapping count_list [info_source] = [(''source_file'', ''source_file'')] \<and>
   length (columns (project_table [(''source_file'', ''source_file'')] info_source 0)) = 3 \<and>
   length [(''source_file'', ''source_file'')] + 3 = (4::nat) \<and>
   extract_dataframes files_ab [''d/a.xlsx'', ''d/b.xlsx''] = [info_trucks, info_blank] \<and>
   create_column_mapping count_list [info_trucks, info_blank]
     = [(''truck'', ''Truck''), (''note'', ''Note'')] \<and>
   nrows (dataframe info_blank) = 2 \<and>
   nrows (project_table [(''truck'', ''Truck''), (''note'', ''Note'')] info_blank 0) = 0"
  by code_simp

text \<open>
  Claim C1, amended. For a well-formed table and a mapping with pairwise different keys,
  none of which is the name of a source-information column, such that at least one entry of
  the mapping is found in the table: the projected table has exactly \<open>len(mapping) + 3\<close>
  columns and as many rows as the table, every column holding one value per row.
\<close>

theorem project_table_shape:
  assumes "frame_ok (dataframe info)"
    and "distinct (map fst column_mapping)"
    and "set (map fst column_mapping) \<inter> set provenance = {}"
    and "\<exists>item \<in> set column_mapping. found_in (dataframe info) item"
  shows "length (columns (project_table column_mapping info now)) = length column_mapping + 3
    \<and> nrows (project_table column_mapping info now) = nrows (dataframe info)
    \<and> frame_ok (project_table column_mapping info now)"
proof -
  from assms(3) have "filter (\<lambda>p. p \<notin> set (map fst column_mapping)) provenance = provenance"
    by (auto simp: filter_id_conv)
  with assms(2) have "columns (project_table column_mapping info now) = map fst column_mapping @ provenance"
    by (simp add: columns_project_table)
  then have "length (columns (project_table column_mapping info now)) = length column_mapping + 3"
    by (simp add: provenance_def)
  moreover have "nrows (project_table column_mapping info now) = nrows (dataframe info)"
    using assms(1,4) by (simp add: nrows_project_table nrows_standardize_frame)
  ultimately show ?thesis by (simp add: frame_ok_project_table)
qed

theorem project_table_shape_witness:
  "frame_ok (dataframe info_trucks) \<and>
   distinct (map fst [(''truck'', ''Truck''), (''status'', ''Status''), (''note'', ''Notes'')]) \<and>
   set (map fst [(''truck'', ''Truck''), (''status'', ''Status''), (''note'', ''Notes'')])
     \<inter> set provenance = {} \<and>
   found_in (dataframe info_trucks) (''note'', ''Notes'') \<and>
   length (columns (project_table
       [(''truck'', ''Truck''), (''status'', ''Status''), (''note'', ''Notes'')] info_trucks 7)) = 6 \<and>
   nrows (project_table
       [(''truck'', ''Truck''), (''status'', ''Status''), (''note'', ''Notes'')] info_trucks 7) = 2"
  (is "?ok \<and> ?dist \<and> ?disj \<and> ?found \<and> ?len \<and> ?rows")
proof -
  have ok: ?ok by code_simp
  have dist: ?dist by code_simp
  have disj: ?disj by code_simp
  have found: ?found by code_simp
  then have ex: "\<exists>item \<in> set [(''truck'', ''Truck''), (''status'', ''Status''), (''note'', ''Notes'')].
      found_in (dataframe info_trucks) item"
    by simp
  from project_table_shape[OF ok dist disj ex, of 7] ok dist disj found
  show ?thesis by simp
qed

lemma map_of_update_other: "k' \<noteq> k \<Longrightarrow> map_of (AList.update k' v al) k = map_of al k"
  by (simp add: update_conv')

lemma map_of_reindexed:
  "map_of (map (\<lambda>(c, old). (c, replicate n Null)) al) k =
     map_option (\<lambda>old. replicate n Null) (map_of al k)"
  by (induction al) auto

lemma null_column_set_scalar:
  "k' \<noteq> k \<Longrightarrow> null_column df k \<Longrightarrow> null_column (set_scalar df k' v) k"
  by (simp add: null_column_def set_scalar_def map_of_update_other)

lemma null_column_set_series:
  "k' \<noteq> k \<Longrightarrow> null_column df k \<Longrightarrow> null_column (set_series df k' vs) k"
  by (auto simp: null_column_def set_series_def Let_def map_of_update_other
      ensure_valid_index_def map_of_reindexed)

lemma null_column_project_column:
  "fst item \<noteq> k \<Longrightarrow> null_column sdf k \<Longrightarrow> null_column (project_column df sdf item) k"
  by (auto simp: project_column_def null_column_set_scalar null_column_set_series
      split: prod.splits option.splits)

lemma null_column_fold_project:
  "k \<notin> set (map fst m) \<Longrightarrow> null_column sdf k \<Longrightarrow>
   null_column (fold (\<lambda>item s. project_column df s item) m sdf) k"
proof (induction m arbitrary: sdf)
  case Nil
  then show ?case by simp
next
  case (Cons item m)
  from Cons.prems have "fst item \<noteq> k" and "k \<notin> set (map fst m)" by auto
  with Cons.prems(2) Cons.IH show ?case
    by (simp add: null_column_project_column)
qed

lemma null_column_not_found:
  assumes "orig \<notin> set (columns df)"
    and "\<forall>c \<in> set (columns df). analyze_column (Str c) \<noteq> k"
  shows "null_column (project_column df sdf (k, orig)) k"
proof -
  from assms(1) have a: "map_of (cols df) orig = None" by (simp add: map_of_cols_None)
  from assms(2) have b: "find_similar (cols df) k = None"
    by (simp add: find_similar_None columns_def)
  show ?thesis
    by (simp add: project_column_def a b null_column_def set_scalar_def update_conv')
qed

lemma null_column_standardize_frame:
  assumes "distinct (map fst m)"
    and "(k, orig) \<in> set m"
    and "orig \<notin> set (columns df)"
    and "\<forall>c \<in> set (columns df). analyze_column (Str c) \<noteq> k"
  shows "null_column (standardize_frame m df) k"
proof -
  from assms(2) obtain m1 m2 where m: "m = m1 @ (k, orig) # m2"
    by (auto dest: split_list)
  with assms(1) have notin: "k \<notin> set (map fst m2)" by auto
  let ?s1 = "fold (\<lambda>item s. project_column df s item) m1 empty_frame"
  have "null_column (project_column df ?s1 (k, orig)) k"
    using assms(3,4) by (rule null_column_not_found)
  with notin have "null_column (fold (\<lambda>item s. project_column df s item) m2
      (project_column df ?s1 (k, orig))) k"
    by (rule null_column_fold_project)
  then show ?thesis by (simp add: standardize_frame_def m)
qed

text \<open>
  Claim C2 as stated fails on the code in three ways. When the missing key is
  \<open>''source_file''\<close>, the column of that name holds the file name in every row, not null.
  When no entry of the mapping is found in the table, the projection has no rows: the
  column exists and is empty, while the table has two rows. And the projection raises
  \<^verbatim>\<open>ValueError\<close> on a loaded table in which the label selected for another key occurs
  twice: the headers \<^verbatim>\<open>"Truck"\<close> and \<^verbatim>\<open>"Truck "\<close> of a sheet are the same label once the
  loader has stripped them.
\<close>

theorem missing_column_null_filled_counterexample:
  "''source_file'' \<notin> set (columns (dataframe info_trucks)) \<and>
   analyze_column (Str ''Truck'') \<noteq> ''source_file'' \<and>
   analyze_column (Str ''Note'') \<noteq> ''source_file'' \<and>
   project_table_checked [(''truck'', ''Truck''), (''source_file'', ''source_file'')] info_trucks 0
     = Inr (project_table [(''truck'', ''Truck''), (''source_file'', ''source_file'')]
              info_trucks 0) \<and>
   map_of (cols (project_table [(''truck'', ''Truck''), (''source_file'', ''source_file'')]
                   info_trucks 0)) ''source_file''
     = Some [Text ''a.xlsx'', Text ''a.xlsx''] \<and>
   ''Truck'' \<notin> set (columns (dataframe info_blank)) \<and>
   analyze_column (Str []) \<noteq> ''truck'' \<and>
   nrows (dataframe info_blank) = 2 \<and>
   project_table_checked [(''truck'', ''Truck''), (''note'', ''Note'')] info_blank 0
     = Inr (project_table [(''truck'', ''Truck''), (''note'', ''Note'')] info_blank 0) \<and>
   map_of (cols (project_table [(''truck'', ''Truck''), (''note'', ''Note'')] info_blank 0)) ''truck''
     = Some [] \<and>
   extract_dataframes files_twins [''d/e.xlsx''] = [info_twins] \<and>
   ''Status'' \<notin> set (columns (dataframe info_twins)) \<and>
   analyze_column (Str ''Truck'') \<noteq> ''status'' \<and>
   project_table_checked [(''truck'', ''Truck''), (''status'', ''Status'')] info_twins 0
     = Inl ValueError"
  by code_simp

text \<open>
  Claim C2, amended. For a table with pairwise different labels and a key of the mapping
  other than the three source-information names, when the table has neither a column
  labelled with the chosen original name nor a column whose standardized name is the key:
  the projection does not raise; the projected table has the column of that key, holding
  null in every row of the projected table; and the projected table has as many rows as
  the table as soon as some entry of the mapping is found in the table.
\<close>

theorem missing_column_null_filled:
  assumes "frame_ok (dataframe info)"
    and "distinct (map fst column_mapping)"
    and "(std_col, orig_col) \<in> set column_mapping"
    and "orig_col \<notin> set (columns (dataframe info))"
    and "\<forall>c \<in> set (columns (dataframe info)). analyze_column (Str c) \<noteq> std_col"
    and "std_col \<notin> set provenance"
  shows "\<exists>projected.
      project_table_checked column_mapping info now = Inr projected \<and>
      map_of (cols projected) std_col = Some (replicate (nrows projected) Null) \<and>
      ((\<exists>item \<in> set column_mapping. found_in (dataframe info) item) \<longrightarrow>
         nrows projected = nrows (dataframe info))"
proof -
  from assms(1) have "distinct (columns (dataframe info))" by (simp add: frame_ok_def)
  then have checked: "project_table_checked column_mapping info now =
      Inr (project_table column_mapping info now)"
    by (rule project_table_checked_distinct)
  from assms(6) have ne: "''source_file'' \<noteq> std_col" "''source_sheet'' \<noteq> std_col"
    "''merge_timestamp'' \<noteq> std_col"
    by (auto simp: provenance_def)
  have "null_column (standardize_frame column_mapping (dataframe info)) std_col"
    using assms(2,3,4,5) by (rule null_column_standardize_frame)
  then have "null_column (project_table column_mapping info now) std_col"
    using ne by (simp add: project_table_def Let_def null_column_set_scalar)
  then have nulls: "map_of (cols (project_table column_mapping info now)) std_col =
      Some (replicate (nrows (project_table column_mapping info now)) Null)"
    by (simp add: null_column_def)
  have rows: "(\<exists>item \<in> set column_mapping. found_in (dataframe info) item) \<longrightarrow>
          nrows (project_table column_mapping info now) = nrows (dataframe info)"
    using assms(1) by (simp add: nrows_project_table nrows_standardize_frame)
  from checked nulls rows show ?thesis by blast
qed

theorem missing_column_null_filled_witness:
  "frame_ok (dataframe info_trucks) \<and>
   (''status'', ''Status'') \<in> set [(''truck'', ''Truck''), (''status'', ''Status'')] \<and>
   ''Status'' \<notin> set (columns (dataframe info_trucks)) \<and>
   ''status'' \<notin> set provenance \<and>
   found_in (dataframe info_trucks) (''truck'', ''Truck'') \<and>
   project_table_checked [(''truck'', ''Truck''), (''status'', ''Status'')] info_trucks 7
     = Inr (project_table [(''truck'', ''Truck''), (''status'', ''Status'')] info_trucks 7) \<and>
   map_of (cols (project_table [(''truck'', ''Truck''), (''status'', ''Status'')] info_trucks 7))
     ''status'' = Some [Null, Null] \<and>
   nrows (project_table [(''truck'', ''Truck''), (''status'', ''Status'')] info_trucks 7) = 2"
  (is "?ok \<and> ?mem \<and> ?orig \<and> ?prov \<and> ?found \<and> ?checked \<and> ?col \<and> ?rows")
proof -
  let ?P = "project_table [(''truck'', ''Truck''), (''status'', ''Status'')] info_trucks 7"
  have ok: ?ok by code_simp
  have dist: "distinct (map fst [(''truck'', ''Truck''), (''status'', ''Status'')])" by code_simp
  have mem: ?mem by simp
  have orig: ?orig by code_simp
  have sim: "\<forall>c \<in> set (columns (dataframe info_trucks)). analyze_column (Str c) \<noteq> ''status''"
    by code_simp
  have prov: ?prov by code_simp
  have found: ?found by code_simp
  then have ex: "\<exists>item \<in> set [(''truck'', ''Truck''), (''status'', ''Status'')].
      found_in (dataframe info_trucks) item"
    by simp
  from missing_column_null_filled[OF ok dist mem orig sim prov, of 7] ex
  obtain projected where p:
    "project_table_checked [(''truck'', ''Truck''), (''status'', ''Status'')] info_trucks 7
       = Inr projected"
    "map_of (cols projected) ''status'' = Some (replicate (nrows projected) Null)"
    "nrows projected = nrows (dataframe info_trucks)"
    by blast
  from p(1) have eq: "projected = ?P" by (rule project_table_checked_Inr)
  from p(1) eq have checked: ?checked by simp
  from p(3) eq have rows: ?rows by simp
  from p(2) eq rows have col: ?col by (simp add: numeral_2_eq_2)
  from ok mem orig prov found checked col rows show ?thesis by blast
qed

lemma nth_project_all:
  "i < length ds \<Longrightarrow>
   project_all m clock calls ds ! i = project_table m (ds ! i) (clock (calls + i))"
proof (induction ds arbitrary: calls i)
  case Nil
  then show ?case by simp
next
  case (Cons d ds)
  then show ?case by (cases i) auto
qed

lemma timestamp_project_table:
  "map_of (cols (project_table m info now)) ''merge_timestamp'' =
     Some (replicate (nrows (project_table m info now)) (Timestamp now))"
  by (simp add: project_table_def Let_def set_scalar_def update_conv')

text \<open>
  Claim C5 as stated fails on the code: \<^verbatim>\<open>datetime.now()\<close> is called inside the loop over
  the tables, once per table. With a clock that advances between the calls, the rows of
  the second table carry a later time than the rows of the first.
\<close>

theorem merge_timestamp_counterexample:
  "map_of (cols (merge_dataframes Suc [info_trucks, info_vehicles] [(''truck'', ''Truck'')]))
     ''merge_timestamp'' = Some [Timestamp 1, Timestamp 1, Timestamp 2]"
  by code_simp

text \<open>
  Claim C5, amended. The time is read once per source table: all rows projected from the
  \<open>i\<close>-th table carry the \<open>i\<close>-th reading of the clock, so rows of one table carry the
  same time and rows of different tables carry the times of different readings.
\<close>

theorem merge_timestamp_per_table:
  "i < length data_info_list \<Longrightarrow>
   map_of (cols (project_all column_mapping clock calls data_info_list ! i)) ''merge_timestamp'' =
     Some (replicate (nrows (project_all column_mapping clock calls data_info_list ! i))
             (Timestamp (clock (calls + i))))"
  by (simp add: nth_project_all timestamp_project_table)

theorem merge_timestamp_per_table_witness:
  "1 < length [info_trucks, info_vehicles] \<and>
   map_of (cols (project_all [(''truck'', ''Truck'')] Suc 0 [info_trucks, info_vehicles] ! 1))
     ''merge_timestamp'' = Some [Timestamp 2, Timestamp 2]"
proof -
  have len: "1 < length [info_trucks, info_vehicles]" by simp
  have n: "nrows (project_all [(''truck'', ''Truck'')] Suc 0 [info_trucks, info_vehicles] ! 1) = 2"
    by code_simp
  from merge_timestamp_per_table[OF len, of "[(''truck'', ''Truck'')]" Suc 0] n len
  show ?thesis by (simp add: numeral_2_eq_2)
qed

section \<open>Concatenation and removal of duplicates\<close>

lemma length_rows_of: "length (rows_of n cs) = n"
  by (induction n arbitrary: cs) auto

lemma length_keep_first: "length (keep_first seen ks) = length ks"
  by (induction ks arbitrary: seen) auto


lemma select_rows_Nil [simp]: "select_rows [] vs = []" "select_rows keep [] = []"
  by (simp_all add: select_rows_def)

lemma select_rows_Cons [simp]:
  "select_rows (b # bs) (v # vs) = (if b then v # select_rows bs vs else select_rows bs vs)"
  by (simp add: select_rows_def)


lemma rows_of_select:
  "length keep = n \<Longrightarrow> \<forall>c \<in> set cs. length c = n \<Longrightarrow>
   rows_of (length (filter id keep)) (map (select_rows keep) cs) = select_rows keep (rows_of n cs)"
proof (induction n arbitrary: keep cs)
  case 0
  then show ?case by simp
next
  case (Suc n)
  then obtain b bs where keep: "keep = b # bs" and lbs: "length bs = n"
    by (cases keep) auto
  from Suc.prems(2) have split: "\<forall>c \<in> set cs. c = hd c # tl c"
    by (auto simp: length_Suc_conv)
  from Suc.prems(2) have ltl: "\<forall>c \<in> set (map tl cs). length c = n" by auto
  have sel: "map (select_rows keep) cs =
      map (\<lambda>c. if b then hd c # select_rows bs (tl c) else select_rows bs (tl c)) cs"
  proof (rule map_cong[OF refl])
    fix c assume "c \<in> set cs"
    with split have "c = hd c # tl c" by blast
    then have "select_rows (b # bs) c = select_rows (b # bs) (hd c # tl c)" by simp
    then show "select_rows keep c =
        (if b then hd c # select_rows bs (tl c) else select_rows bs (tl c))"
      by (simp add: keep)
  qed
  have ih: "rows_of (length (filter id bs)) (map (select_rows bs) (map tl cs)) =
      select_rows bs (rows_of n (map tl cs))"
    using Suc.IH[OF lbs ltl] .
  show ?case
  proof (cases b)
    case True
    have n_eq: "length (filter id keep) = Suc (length (filter id bs))"
      using True by (simp add: keep)
    have m_eq: "map (select_rows keep) cs = map (\<lambda>c. hd c # select_rows bs (tl c)) cs"
      using True sel by simp
    have "rows_of (length (filter id keep)) (map (select_rows keep) cs) =
        rows_of (Suc (length (filter id bs))) (map (\<lambda>c. hd c # select_rows bs (tl c)) cs)"
      by (simp only: n_eq m_eq)
    also have "\<dots> = map hd cs # rows_of (length (filter id bs)) (map (select_rows bs) (map tl cs))"
      by (simp add: comp_def)
    also have "\<dots> = map hd cs # select_rows bs (rows_of n (map tl cs))"
      by (simp only: ih)
    also have "\<dots> = select_rows keep (rows_of (Suc n) cs)"
      using True by (simp add: keep)
    finally show ?thesis .
  next
    case False
    have n_eq: "length (filter id keep) = length (filter id bs)"
      using False by (simp add: keep)
    have m_eq: "map (select_rows keep) cs = map (\<lambda>c. select_rows bs (tl c)) cs"
      using False sel by simp
    have "rows_of (length (filter id keep)) (map (select_rows keep) cs) =
        rows_of (length (filter id bs)) (map (\<lambda>c. select_rows bs (tl c)) cs)"
      by (simp only: n_eq m_eq)
    also have "\<dots> = rows_of (length (filter id bs)) (map (select_rows bs) (map tl cs))"
      by (simp add: comp_def)
    also have "\<dots> = select_rows bs (rows_of n (map tl cs))"
      by (simp only: ih)
    also have "\<dots> = select_rows keep (rows_of (Suc n) cs)"
      using False by (simp add: keep)
    finally show ?thesis .
  qed
qed


lemma columns_concat_frames:
  "columns (concat_frames fs) = rev (remdups (rev (concat (map columns fs))))"
  by (simp add: concat_frames_def columns_def comp_def)

lemma nrows_concat_frames: "nrows (concat_frames fs) = sum_list (map nrows fs)"
  by (simp add: concat_frames_def)

lemma length_concat_pieces:
  assumes "\<forall>f \<in> set fs. frame_ok f"
  shows "length (concat (map (\<lambda>f. case map_of (cols f) c of Some vs \<Rightarrow> vs
                                    | None \<Rightarrow> replicate (nrows f) Null) fs)) =
         sum_list (map nrows fs)"
  using assms
proof (induction fs)
  case Nil
  then show ?case by simp
next
  case (Cons f fs)
  then have "frame_ok f" by simp
  then have "length (case map_of (cols f) c of Some vs \<Rightarrow> vs
                     | None \<Rightarrow> replicate (nrows f) Null) = nrows f"
    by (auto simp: frame_ok_column_length split: option.splits)
  with Cons show ?case by simp
qed

lemma frame_ok_concat_frames:
  assumes "\<forall>f \<in> set fs. frame_ok f"
  shows "frame_ok (concat_frames fs)"
  unfolding frame_ok_def
proof (intro conjI ballI)
  show "distinct (columns (concat_frames fs))"
    by (simp add: columns_concat_frames)
  fix vs assume "vs \<in> set (map snd (cols (concat_frames fs)))"
  then obtain c where "vs = concat (map (\<lambda>f. case map_of (cols f) c of Some vs \<Rightarrow> vs
                                    | None \<Rightarrow> replicate (nrows f) Null) fs)"
    by (auto simp: concat_frames_def)
  then show "length vs = nrows (concat_frames fs)"
    using length_concat_pieces[OF assms] by (simp add: nrows_concat_frames)
qed


lemma columns_drop_duplicates: "columns (drop_duplicates kc df) = columns df"
  by (simp add: drop_duplicates_def Let_def columns_def comp_def split_def)

lemma filter_map_cols:
  "filter (\<lambda>(c, vs). P c) (map (\<lambda>(c, vs). (c, f vs)) al) =
   map (\<lambda>(c, vs). (c, f vs)) (filter (\<lambda>(c, vs). P c) al)"
  by (induction al) auto

lemma map_snd_map_cols: "map snd (map (\<lambda>(c, vs). (c, f vs)) al) = map f (map snd al)"
  by (induction al) auto

lemma data_columns_drop_duplicates: "data_columns (drop_duplicates kc df) = data_columns df"
  by (simp add: data_columns_def columns_drop_duplicates)


lemma subset_rows_drop_duplicates:
  assumes "frame_ok df"
  shows "subset_rows kc' (drop_duplicates kc df) =
     select_rows (keep_first [] (map (map cell_key) (subset_rows kc df))) (subset_rows kc' df)"
proof -
  let ?keep = "keep_first [] (map (map cell_key) (subset_rows kc df))"
  let ?sel = "filter (\<lambda>(c, vs). c \<in> set kc') (cols df)"
  have len: "length ?keep = nrows df"
    by (simp add: length_keep_first subset_rows_def length_rows_of)
  from assms have all: "\<forall>c \<in> set (map snd ?sel). length c = nrows df"
    by (auto simp: frame_ok_def)
  have "subset_rows kc' (drop_duplicates kc df) =
      rows_of (length (filter id ?keep)) (map (select_rows ?keep) (map snd ?sel))"
    unfolding subset_rows_def[of kc'] drop_duplicates_def Let_def
    by (simp only: frame.simps map_snd_map_cols filter_map_cols)
  with rows_of_select[OF len all] show ?thesis
    by (simp only: subset_rows_def[of kc'])
qed







lemma rows_of_append:
  "\<forall>c \<in> set cs. length (f c) = a \<Longrightarrow>
   rows_of (a + b) (map (\<lambda>c. f c @ g c) cs) = rows_of a (map f cs) @ rows_of b (map g cs)"
proof (induction a arbitrary: f)
  case 0
  then have "\<forall>c \<in> set cs. f c @ g c = g c" by simp
  then have e: "map (\<lambda>c. f c @ g c) cs = map g cs" by (simp cong: map_cong)
  show ?case unfolding e by simp
next
  case (Suc a)
  then have ne: "\<forall>c \<in> set cs. f c \<noteq> []" by auto
  have hd_eq: "map hd (map (\<lambda>c. f c @ g c) cs) = map hd (map f cs)"
    using ne by (auto intro!: map_cong)
  have tl_eq: "map tl (map (\<lambda>c. f c @ g c) cs) = map (\<lambda>c. tl (f c) @ g c) cs"
    using ne by (auto intro!: map_cong)
  from Suc.prems have "\<forall>c \<in> set cs. length (tl (f c)) = a" by auto
  from Suc.IH[of "\<lambda>c. tl (f c)", OF this]
  have ih: "rows_of (a + b) (map (\<lambda>c. tl (f c) @ g c) cs) =
      rows_of a (map (\<lambda>c. tl (f c)) cs) @ rows_of b (map g cs)" .
  have "rows_of (Suc a + b) (map (\<lambda>c. f c @ g c) cs) =
      map hd (map (\<lambda>c. f c @ g c) cs) # rows_of (a + b) (map tl (map (\<lambda>c. f c @ g c) cs))"
    by simp
  also have "\<dots> = map hd (map f cs) # rows_of (a + b) (map (\<lambda>c. tl (f c) @ g c) cs)"
    by (simp only: hd_eq tl_eq)
  also have "\<dots> = map hd (map f cs) # rows_of a (map (\<lambda>c. tl (f c)) cs) @ rows_of b (map g cs)"
    by (simp only: ih)
  also have "\<dots> = rows_of (Suc a) (map f cs) @ rows_of b (map g cs)"
    by (simp add: comp_def)
  finally show ?case .
qed

lemma select_keep_first_append:
  "select_rows (keep_first seen (map f xs @ map f ys)) (xs @ ys) =
   select_rows (keep_first seen (map f xs)) xs @
   select_rows (keep_first (rev (map f xs) @ seen) (map f ys)) ys"
  by (induction xs arbitrary: seen) auto

lemma select_keep_first_seen:
  "f ` set ys \<subseteq> set seen \<Longrightarrow> select_rows (keep_first seen (map f ys)) ys = []"
proof (induction ys arbitrary: seen)
  case Nil
  then show ?case by simp
next
  case (Cons y ys)
  then have "f ` set ys \<subseteq> set (f y # seen)" by auto
  then have "select_rows (keep_first (f y # seen) (map f ys)) ys = []" by (rule Cons.IH)
  with Cons.prems show ?case by simp
qed

lemma select_keep_first_twice:
  "select_rows (keep_first [] (map f xs @ map f xs)) (xs @ xs) =
   select_rows (keep_first [] (map f xs)) xs"
  by (simp add: select_keep_first_append select_keep_first_seen)

lemma remdups_append_same: "distinct ys \<Longrightarrow> set xs \<subseteq> set ys \<Longrightarrow> remdups (xs @ ys) = ys"
  by (induction xs) auto

lemma first_seen_twice: "distinct xs \<Longrightarrow> rev (remdups (rev (xs @ xs))) = xs"
  by (simp add: remdups_append_same)

lemma first_seen_once: "distinct xs \<Longrightarrow> rev (remdups (rev xs)) = xs"
  by (simp add: distinct_remdups_id)

lemma filter_update_other:
  "k \<notin> S \<Longrightarrow> filter (\<lambda>(c, vs). c \<in> S) (AList.update k v al) = filter (\<lambda>(c, vs). c \<in> S) al"
  by (induction al) auto

lemma length_piece: "frame_ok f \<Longrightarrow> length (piece f c) = nrows f"
  by (auto simp: piece_def frame_ok_column_length split: option.splits)

lemma cols_concat_frames:
  "cols (concat_frames fs) =
     map (\<lambda>c. (c, concat (map (\<lambda>f. piece f c) fs))) (columns (concat_frames fs))"
  by (simp add: concat_frames_def columns_def comp_def piece_def)

lemma rows_of_concat_pieces:
  "\<forall>f \<in> set fs. frame_ok f \<Longrightarrow>
   rows_of (sum_list (map nrows fs)) (map (\<lambda>c. concat (map (\<lambda>f. piece f c) fs)) ns) =
   concat (map (\<lambda>f. rows_of (nrows f) (map (piece f) ns)) fs)"
proof (induction fs)
  case Nil
  then show ?case by simp
next
  case (Cons f fs)
  then have "\<forall>c \<in> set ns. length (piece f c) = nrows f"
    by (simp add: length_piece)
  from rows_of_append[OF this, of "sum_list (map nrows fs)"
      "\<lambda>c. concat (map (\<lambda>f. piece f c) fs)"] Cons
  show ?case by simp
qed

lemma filter_map_names:
  "filter (\<lambda>(c, vs). P c) (map (\<lambda>c. (c, h c)) ns) = map (\<lambda>c. (c, h c)) (filter P ns)"
  by (induction ns) auto

lemma subset_rows_concat_frames:
  assumes "\<forall>f \<in> set fs. frame_ok f"
  shows "subset_rows kc (concat_frames fs) =
     concat (map (\<lambda>f. rows_of (nrows f)
       (map (piece f) (filter (\<lambda>c. c \<in> set kc) (columns (concat_frames fs))))) fs)"
proof -
  have "subset_rows kc (concat_frames fs) =
      rows_of (sum_list (map nrows fs))
        (map (\<lambda>c. concat (map (\<lambda>f. piece f c) fs))
           (filter (\<lambda>c. c \<in> set kc) (columns (concat_frames fs))))"
    unfolding subset_rows_def
    by (subst cols_concat_frames) (simp add: filter_map_names comp_def nrows_concat_frames)
  with rows_of_concat_pieces[OF assms] show ?thesis by simp
qed

lemma map_piece_filter:
  "distinct (map fst al) \<Longrightarrow>
   map (\<lambda>c. case map_of al c of Some vs \<Rightarrow> vs | None \<Rightarrow> d) (filter P (map fst al)) =
   map snd (filter (\<lambda>(c, vs). P c) al)"
proof (induction al)
  case Nil
  then show ?case by simp
next
  case (Cons kv al)
  obtain k v where kv: "kv = (k, v)" by (cases kv)
  from Cons.prems have k: "k \<notin> set (map fst al)" and d: "distinct (map fst al)"
    by (simp_all add: kv)
  have "map (\<lambda>c. case map_of (kv # al) c of Some vs \<Rightarrow> vs | None \<Rightarrow> d) (filter P (map fst al)) =
      map (\<lambda>c. case map_of al c of Some vs \<Rightarrow> vs | None \<Rightarrow> d) (filter P (map fst al))"
    using k by (intro map_cong) (auto simp: kv)
  with Cons.IH[OF d] show ?case by (simp add: kv)
qed

lemma subset_rows_pieces:
  "frame_ok f \<Longrightarrow>
   rows_of (nrows f) (map (piece f) (filter (\<lambda>c. c \<in> set kc) (columns f))) = subset_rows kc f"
  using map_piece_filter[of "cols f" "replicate (nrows f) Null" "\<lambda>c. c \<in> set kc"]
  by (simp add: subset_rows_def frame_ok_def columns_def piece_def[abs_def])

lemma subset_rows_project_table:
  assumes "''merge_timestamp'' \<notin> set kc"
  shows "subset_rows kc (project_table m info t1) = subset_rows kc (project_table m info t2)"
  using assms
  by (simp add: subset_rows_def project_table_def Let_def set_scalar_def filter_update_other)

lemma filter_in_filter: "filter (\<lambda>c. c \<in> set (filter P xs)) xs = filter P xs"
  by (rule filter_cong[OF refl]) simp

text \<open>
  Claim C7 as stated fails on the code for a mapping all of whose keys are names of
  source-information columns: then no duplicates are removed, and merging the table twice
  gives twice as many rows as merging it once.
\<close>

theorem merge_twice_counterexample:
  "data_rows (merge_dataframes Suc [info_source, info_source] [(''source_file'', ''source_file'')])
     = [[], [], [], []] \<and>
   data_rows (merge_dataframes Suc [info_source] [(''source_file'', ''source_file'')]) = [[], []] \<and>
   data_rows (merge_dataframes Suc [info_source, info_source] [(''source_file'', ''source_file'')])
     \<noteq> data_rows (merge_dataframes Suc [info_source] [(''source_file'', ''source_file'')])"
  by code_simp

text \<open>
  Claim C7, amended. For every table and every mapping with pairwise different keys, at
  least one of which is not the name of a source-information column, merging the table
  twice gives the same sequence of rows, restricted to the columns other than source
  information, as merging it once.
\<close>

theorem merge_twice_same_data_rows:
  assumes "distinct (map fst column_mapping)"
    and "\<exists>k \<in> set (map fst column_mapping). k \<notin> set provenance"
  shows "data_rows (merge_dataframes clk [info, info] column_mapping) =
         data_rows (merge_dataframes clk [info] column_mapping)"
proof -
  let ?P1 = "project_table column_mapping info (clk 0)"
  let ?P2 = "project_table column_mapping info (clk (Suc 0))"
  let ?C1 = "concat_frames [?P1]" and ?C2 = "concat_frames [?P1, ?P2]"
  let ?cs = "map fst column_mapping @ filter (\<lambda>p. p \<notin> set (map fst column_mapping)) provenance"
  let ?dc = "filter (\<lambda>col. col \<notin> set provenance) ?cs"
  let ?X = "subset_rows ?dc ?P1"
  have c1: "columns ?P1 = ?cs" and c2: "columns ?P2 = ?cs"
    using assms(1) by (simp_all add: columns_project_table)
  have ok1: "frame_ok ?P1" and ok2: "frame_ok ?P2"
    by (simp_all add: frame_ok_project_table)
  then have dcs: "distinct ?cs" using c1 by (simp add: frame_ok_def)
  have cc1: "columns ?C1 = ?cs"
    using first_seen_once[OF dcs] c1 by (simp add: columns_concat_frames)
  have cc2: "columns ?C2 = ?cs"
    using first_seen_twice[OF dcs] c1 c2 by (simp add: columns_concat_frames)
  have dc1: "data_columns ?C1 = ?dc" and dc2: "data_columns ?C2 = ?dc"
    using cc1 cc2 by (simp_all add: data_columns_def)
  from assms(2) have ne: "?dc \<noteq> []"
    by (auto simp: filter_empty_conv)
  have M1: "merge_dataframes clk [info] column_mapping = drop_duplicates ?dc ?C1"
    using ne dc1 by (simp add: merge_dataframes_def Let_def)
  have M2: "merge_dataframes clk [info, info] column_mapping = drop_duplicates ?dc ?C2"
    using ne dc2 by (simp add: merge_dataframes_def Let_def)
  have okC1: "frame_ok ?C1" and okC2: "frame_ok ?C2"
    using ok1 ok2 by (simp_all add: frame_ok_concat_frames)
  have in_dc: "filter (\<lambda>c. c \<in> set ?dc) ?cs = ?dc"
    by (rule filter_in_filter)
  have mt: "''merge_timestamp'' \<notin> set ?dc"
    by (simp add: provenance_def)
  have piece1: "rows_of (nrows ?P1) (map (piece ?P1) ?dc) = ?X"
    using subset_rows_pieces[OF ok1, of ?dc] c1 in_dc by simp
  have piece2: "rows_of (nrows ?P2) (map (piece ?P2) ?dc) = ?X"
    using subset_rows_pieces[OF ok2, of ?dc] c2 in_dc subset_rows_project_table[OF mt]
    by simp
  have X1: "subset_rows ?dc ?C1 = ?X"
    using subset_rows_concat_frames[of "[?P1]" ?dc] ok1 cc1 in_dc piece1 by simp
  have X2: "subset_rows ?dc ?C2 = ?X @ ?X"
    using subset_rows_concat_frames[of "[?P1, ?P2]" ?dc] ok1 ok2 cc2 in_dc piece1 piece2 by simp
  have "data_rows (drop_duplicates ?dc ?C2) =
      select_rows (keep_first [] (map (map cell_key) ?X @ map (map cell_key) ?X)) (?X @ ?X)"
    using subset_rows_drop_duplicates[OF okC2, of ?dc ?dc] X2 dc2
    by (simp add: data_rows_def data_columns_drop_duplicates)
  moreover have "data_rows (drop_duplicates ?dc ?C1) =
      select_rows (keep_first [] (map (map cell_key) ?X)) ?X"
    using subset_rows_drop_duplicates[OF okC1, of ?dc ?dc] X1 dc1
    by (simp add: data_rows_def data_columns_drop_duplicates)
  ultimately show ?thesis
    by (simp only: M1 M2 select_keep_first_twice)
qed

theorem merge_twice_same_data_rows_witness:
  "distinct (map fst [(''truck'', ''Truck''), (''source_file'', ''Origin'')]) \<and>
   ''truck'' \<in> set (map fst [(''truck'', ''Truck''), (''source_file'', ''Origin'')]) \<and>
   ''truck'' \<notin> set provenance \<and>
   data_rows (merge_dataframes Suc [info_trucks, info_trucks]
                [(''truck'', ''Truck''), (''source_file'', ''Origin'')])
     = data_rows (merge_dataframes Suc [info_trucks]
                [(''truck'', ''Truck''), (''source_file'', ''Origin'')]) \<and>
   data_rows (merge_dataframes Suc [info_trucks]
                [(''truck'', ''Truck''), (''source_file'', ''Origin'')])
     = [[Text ''T1''], [Text ''T2'']]"
  (is "?dist \<and> ?mem \<and> ?prov \<and> ?same \<and> ?rows")
proof -
  have dist: ?dist by code_simp
  have mem: ?mem by simp
  have prov: ?prov by code_simp
  from mem prov have ex: "\<exists>k \<in> set (map fst [(''truck'', ''Truck''), (''source_file'', ''Origin'')]).
      k \<notin> set provenance" by blast
  have same: ?same by (rule merge_twice_same_data_rows[OF dist ex])
  have rows: ?rows by code_simp
  from dist mem prov same rows show ?thesis by blast
qed

section \<open>Properties of the column mapping\<close>

lemma occs_of_append_occurrence:
  "occs_of (append_occurrence k' occ al) k = occs_of al k @ (if k' = k then [occ] else [])"
  by (auto simp: occs_of_def append_occurrence_def update_conv')

lemma distinct_append_occurrence:
  "distinct (map fst al) \<Longrightarrow> distinct (map fst (append_occurrence k' occ al))"
  by (simp add: append_occurrence_def distinct_update)

lemma occs_of_collect_items:
  "occs_of (collect_items p s items al) k =
     occs_of al k @ map (\<lambda>item. (p, s, fst item)) (filter (\<lambda>item. snd item = k) items)"
  by (induction items arbitrary: al) (auto simp: occs_of_append_occurrence)

lemma distinct_collect_items:
  "distinct (map fst al) \<Longrightarrow> distinct (map fst (collect_items p s items al))"
  by (induction items arbitrary: al) (auto simp: distinct_append_occurrence)

lemma occs_of_collect_columns:
  "map (\<lambda>occ. snd (snd occ)) (occs_of (collect_columns ds al) k) =
     map (\<lambda>occ. snd (snd occ)) (occs_of al k) @ occurrence_names ds k"
  by (induction ds arbitrary: al)
    (auto simp: occurrence_names_def occs_of_collect_items comp_def)

lemma distinct_collect_columns:
  "distinct (map fst al) \<Longrightarrow> distinct (map fst (collect_columns ds al))"
  by (induction ds arbitrary: al) (auto simp: distinct_collect_items)

lemma max_by_maximal:
  "max_by f best xs \<in> set (best # xs) \<and> (\<forall>y \<in> set (best # xs). f y \<le> f (max_by f best xs))"
proof (induction xs arbitrary: best)
  case Nil
  then show ?case by simp
next
  case (Cons x xs)
  from Cons.IH[of "if f best < f x then x else best"] show ?case
    by (auto split: if_splits)
qed

lemma set_set_iteration: "set (set_iteration rank xs) = set xs"
  by (simp add: set_iteration_def)

lemma most_common_maximal:
  assumes "xs \<noteq> []"
  shows "most_common rank xs \<in> set xs \<and> (\<forall>y. count_list xs y \<le> count_list xs (most_common rank xs))"
proof -
  from assms have "set_iteration rank xs \<noteq> []"
    using set_set_iteration[of rank xs] by auto
  then obtain x rest where it: "set_iteration rank xs = x # rest"
    by (cases "set_iteration rank xs") auto
  have mc: "most_common rank xs = max_by (count_list xs) x rest"
    by (simp add: most_common_def it)
  from max_by_maximal[of "count_list xs" x rest]
  have a: "most_common rank xs \<in> set xs"
    and b: "\<forall>y \<in> set xs. count_list xs y \<le> count_list xs (most_common rank xs)"
    using set_set_iteration[of rank xs] by (simp_all add: mc it[symmetric])
  have "count_list xs y \<le> count_list xs (most_common rank xs)" for y
  proof (cases "y \<in> set xs")
    case True
    with b show ?thesis by blast
  next
    case False
    then show ?thesis by (simp add: count_list_0_iff)
  qed
  with a show ?thesis by blast
qed

lemma build_mapping_step:
  "build_mapping rank ((k, occs) # rest) acc =
     build_mapping rank rest
       (if occs = [] then acc
        else AList.update k (most_common rank (map (\<lambda>occ. snd (snd occ)) occs)) acc)"
proof (cases "occs = []")
  case True
  then show ?thesis by simp
next
  case False
  then have "set_iteration rank (map (\<lambda>occ. snd (snd occ)) occs) \<noteq> []"
    using set_set_iteration[of rank "map (\<lambda>occ. snd (snd occ)) occs"] by auto
  with False show ?thesis
    by (auto simp: most_common_def Let_def split: list.splits)
qed

lemma map_of_build_mapping:
  "distinct (map fst al) \<Longrightarrow>
   map_of (build_mapping rank al acc) k =
     (case map_of al k of
        None \<Rightarrow> map_of acc k
      | Some occs \<Rightarrow>
          if occs = [] then map_of acc k
          else Some (most_common rank (map (\<lambda>occ. snd (snd occ)) occs)))"
proof (induction al arbitrary: acc)
  case Nil
  then show ?case by simp
next
  case (Cons ko al)
  obtain k' occs where ko: "ko = (k', occs)" by (cases ko)
  from Cons.prems have d: "distinct (map fst al)" and k': "map_of al k' = None"
    by (auto simp: ko map_of_eq_None_iff)
  show ?case
    unfolding ko build_mapping_step
    by (subst Cons.IH[OF d]) (auto simp: k' update_conv' split: option.splits)
qed

lemma distinct_build_mapping:
  "distinct (map fst acc) \<Longrightarrow> distinct (map fst (build_mapping rank al acc))"
proof (induction al arbitrary: acc)
  case Nil
  then show ?case by simp
next
  case (Cons ko al)
  obtain k' occs where ko: "ko = (k', occs)" by (cases ko)
  show ?case
    unfolding ko build_mapping_step
    by (rule Cons.IH) (simp add: Cons.prems distinct_update)
qed

lemma map_of_create_column_mapping:
  "map_of (create_column_mapping rank ds) k =
     (if occurrence_names ds k = [] then None
      else Some (most_common rank (occurrence_names ds k)))"
proof -
  let ?al = "collect_columns ds []"
  have d: "distinct (map fst ?al)" by (simp add: distinct_collect_columns)
  have names: "map (\<lambda>occ. snd (snd occ)) (occs_of ?al k) = occurrence_names ds k"
    using occs_of_collect_columns[of ds "[]" k] by (simp add: occs_of_def)
  show ?thesis
  proof (cases "map_of ?al k")
    case None
    with names have "occurrence_names ds k = []" by (simp add: occs_of_def)
    with None show ?thesis
      by (simp add: create_column_mapping_def map_of_build_mapping[OF d])
  next
    case (Some occs)
    with names have "map (\<lambda>occ. snd (snd occ)) occs = occurrence_names ds k"
      by (simp add: occs_of_def)
    with Some show ?thesis
      by (auto simp: create_column_mapping_def map_of_build_mapping[OF d])
  qed
qed

lemma distinct_create_column_mapping: "distinct (map fst (create_column_mapping rank ds))"
  by (simp add: create_column_mapping_def distinct_build_mapping)

text \<open>
  Claim C8. Every standardized name that occurs in the standardized columns of some loaded
  table is a key of the mapping, and the mapping gives it one of the original names
  collected for it, whose number of occurrences among them is maximal. This holds for
  every iteration order of the set of names.
\<close>

theorem create_column_mapping_most_frequent:
  assumes "info \<in> set data_info_list"
    and "(orig_col, std_col) \<in> set (standardized_columns info)"
  shows "\<exists>chosen.
      map_of (create_column_mapping rank data_info_list) std_col = Some chosen \<and>
      chosen \<in> set (occurrence_names data_info_list std_col) \<and>
      (\<forall>name. count_list (occurrence_names data_info_list std_col) name
                 \<le> count_list (occurrence_names data_info_list std_col) chosen)"
proof -
  from assms have "orig_col \<in> set (occurrence_names data_info_list std_col)"
    by (force simp: occurrence_names_def)
  then have ne: "occurrence_names data_info_list std_col \<noteq> []" by auto
  from most_common_maximal[OF ne, of rank] ne show ?thesis
    by (simp add: map_of_create_column_mapping)
qed

theorem create_column_mapping_most_frequent_witness:
  "info_vehicles \<in> set [info_trucks, info_vehicles, info_trucks] \<and>
   (''vehicle'', ''truck'') \<in> set (standardized_columns info_vehicles) \<and>
   occurrence_names [info_trucks, info_vehicles, info_trucks] ''truck''
     = [''Truck'', ''vehicle'', ''Truck''] \<and>
   map_of (create_column_mapping count_list [info_trucks, info_vehicles, info_trucks]) ''truck''
     = Some ''Truck'' \<and>
   (\<forall>name. count_list (occurrence_names [info_trucks, info_vehicles, info_trucks] ''truck'') name
             \<le> count_list (occurrence_names [info_trucks, info_vehicles, info_trucks] ''truck'')
                  ''Truck'')"
  (is "?mem \<and> ?item \<and> ?names \<and> ?chosen \<and> ?max")
proof -
  have mem: ?mem by simp
  have item: ?item by simp
  have names: ?names by code_simp
  have chosen: ?chosen by code_simp
  from create_column_mapping_most_frequent[OF mem item, of count_list] chosen
  have ?max by auto
  with mem item names chosen show ?thesis by blast
qed

section \<open>Nothing to merge\<close>

lemma nrows_drop_duplicates_le: "nrows (drop_duplicates kc df) \<le> nrows df"
proof -
  have "length (filter id (keep_first [] (map (map cell_key) (subset_rows kc df)))) \<le>
      length (keep_first [] (map (map cell_key) (subset_rows kc df)))"
    by (rule length_filter_le)
  then show ?thesis
    by (simp add: drop_duplicates_def Let_def length_keep_first subset_rows_def length_rows_of)
qed

lemma nrows_project_all_empty_mapping:
  "sum_list (map nrows (project_all [] clk calls ds)) = 0"
  by (induction ds arbitrary: calls)
    (auto simp: nrows_project_table standardize_frame_def empty_frame_def)

lemma nrows_merge_empty_mapping: "nrows (merge_dataframes clk ds []) = 0"
proof -
  let ?C = "concat_frames (project_all [] clk 0 ds)"
  have "nrows ?C = 0"
    by (simp add: nrows_concat_frames nrows_project_all_empty_mapping)
  moreover have "nrows (drop_duplicates (data_columns ?C) ?C) \<le> nrows ?C"
    by (rule nrows_drop_duplicates_le)
  ultimately show ?thesis
    by (simp add: merge_dataframes_def Let_def empty_frame_def)
qed

text \<open>
  Claim C9. Merging no tables gives the empty frame, and merging with an empty mapping
  gives a frame without rows. When no table survives loading, or the mapping built from
  the loaded tables is empty, \<open>merge_excel_files\<close> returns \<open>Inr None\<close>, the pair of
  \<^verbatim>\<open>None\<close>s that tells the caller there was nothing to merge, and not an exception.
\<close>

theorem nothing_to_merge:
  "merge_dataframes clk [] column_mapping = empty_frame \<and>
   frame_empty (merge_dataframes clk [] column_mapping) \<and>
   frame_empty (merge_dataframes clk data_info_list []) \<and>
   (get_excel_files e input_dir excel_files directory = Inr files \<and>
    (extract_dataframes (env_read_workbook e) files = [] \<or>
     create_column_mapping (env_rank e) (extract_dataframes (env_read_workbook e) files) = [])
    \<longrightarrow> merge_excel_files e input_dir excel_files directory = Inr None)"
proof (intro conjI impI)
  show "merge_dataframes clk [] column_mapping = empty_frame"
    by (simp add: merge_dataframes_def)
  then show "frame_empty (merge_dataframes clk [] column_mapping)"
    by (simp add: frame_empty_def empty_frame_def)
  show "frame_empty (merge_dataframes clk data_info_list [])"
    by (simp add: frame_empty_def nrows_merge_empty_mapping)
next
  assume a: "get_excel_files e input_dir excel_files directory = Inr files \<and>
    (extract_dataframes (env_read_workbook e) files = [] \<or>
     create_column_mapping (env_rank e) (extract_dataframes (env_read_workbook e) files) = [])"
  then have g: "get_excel_files e input_dir excel_files directory = Inr files" by simp
  from a consider
    (none) "extract_dataframes (env_read_workbook e) files = []"
    | (nomap) "create_column_mapping (env_rank e) (extract_dataframes (env_read_workbook e) files) = []"
    by blast
  then show "merge_excel_files e input_dir excel_files directory = Inr None"
  proof cases
    case none
    with g show ?thesis by (simp add: merge_excel_files_def)
  next
    case nomap
    have "frame_empty (merge_dataframes (env_clock e)
        (extract_dataframes (env_read_workbook e) files) [])"
      by (simp add: frame_empty_def nrows_merge_empty_mapping)
    with g nomap show ?thesis
      by (simp add: merge_excel_files_def Let_def merge_dataframes_checked_empty_mapping)
  qed
qed

theorem nothing_to_merge_witness:
  "get_excel_files env_blank None (Some [''d/b.xlsx'']) None = Inr [''d/b.xlsx''] \<and>
   extract_dataframes (env_read_workbook env_blank) [''d/b.xlsx''] = [info_blank] \<and>
   create_column_mapping (env_rank env_blank)
     (extract_dataframes (env_read_workbook env_blank) [''d/b.xlsx'']) = [] \<and>
   merge_excel_files env_blank None (Some [''d/b.xlsx'']) None = Inr None \<and>
   get_excel_files env_blank None (Some [''d/missing.xlsx'']) None = Inr [''d/missing.xlsx''] \<and>
   extract_dataframes (env_read_workbook env_blank) [''d/missing.xlsx''] = [] \<and>
   merge_excel_files env_blank None (Some [''d/missing.xlsx'']) None = Inr None"
  (is "?g1 \<and> ?x1 \<and> ?m1 \<and> ?r1 \<and> ?g2 \<and> ?x2 \<and> ?r2")
proof -
  have g1: ?g1 by (simp add: get_excel_files_def)
  have x1: ?x1 by code_simp
  have m1: ?m1 by code_simp
  have g2: ?g2 by (simp add: get_excel_files_def)
  have x2: ?x2 by code_simp
  from nothing_to_merge[of _ _ _ env_blank None "Some [''d/b.xlsx'']" None "[''d/b.xlsx'']"] g1 m1
  have r1: ?r1 by blast
  from nothing_to_merge[of _ _ _ env_blank None "Some [''d/missing.xlsx'']" None
      "[''d/missing.xlsx'']"] g2 x2
  have r2: ?r2 by blast
  from g1 x1 m1 r1 g2 x2 r2 show ?thesis by blast
qed

section \<open>Columns excluded by the loader\<close>

lemma set_update_items: "set (AList.update k v al) \<subseteq> insert (k, v) (set al)"
  by (induction al) auto

lemma standardize_items:
  "\<forall>item \<in> set acc. item_ok item \<Longrightarrow> \<forall>item \<in> set (standardize cs acc). item_ok item"
proof (induction cs arbitrary: acc)
  case Nil
  then show ?case by simp
next
  case (Cons c cs)
  show ?case
  proof (cases "analyze_column (Str c) = []")
    case True
    with Cons.IH[OF Cons.prems] show ?thesis by (simp add: Let_def)
  next
    case False
    then have "item_ok (c, analyze_column (Str c))" by (simp add: item_ok_def)
    with Cons.prems
    have "\<forall>item \<in> set (AList.update c (analyze_column (Str c)) acc). item_ok item"
      using set_update_items[of c "analyze_column (Str c)" acc] by blast
    from Cons.IH[OF this] False show ?thesis by (simp add: Let_def)
  qed
qed

lemma standardized_ok_read_sheets: "\<forall>info \<in> set (read_sheets path sheets). standardized_ok info"
proof (induction path sheets rule: read_sheets.induct)
  case (1 path)
  then show ?case by simp
next
  case (2 path sheet rest)
  then show ?case by simp
next
  case (3 path sheet raw rest)
  have "standardized_ok \<lparr>file_path = path, sheet_name = sheet,
      original_columns = columns (clean_columns raw),
      standardized_columns = standardize (columns (clean_columns raw)) [],
      dataframe = clean_columns raw, row_count = nrows (clean_columns raw)\<rparr>"
    using standardize_items[of "[]" "columns (clean_columns raw)"]
    by (simp add: standardized_ok_def)
  with 3 show ?case by (auto simp: Let_def)
qed

lemma standardized_ok_extract:
  "\<forall>info \<in> set (extract_dataframes rw files). standardized_ok info"
  by (induction files) (auto simp: standardized_ok_read_sheets split: option.splits)

lemma standardized_ok_names:
  assumes "standardized_ok info" and "(orig, std) \<in> set (standardized_columns info)"
  shows "orig \<noteq> [] \<and> std \<noteq> []"
proof -
  from assms have "item_ok (orig, std)" by (auto simp: standardized_ok_def)
  then have s: "std = analyze_column (Str orig)" and ne: "std \<noteq> []"
    unfolding item_ok_def by auto
  with analyze_column_empty show ?thesis by auto
qed

lemma create_column_mapping_item:
  assumes "(k, v) \<in> set (create_column_mapping rank ds)"
  shows "\<exists>info \<in> set ds. (v, k) \<in> set (standardized_columns info)"
proof -
  from assms have m: "map_of (create_column_mapping rank ds) k = Some v"
    by (simp add: distinct_create_column_mapping)
  then have ne: "occurrence_names ds k \<noteq> []"
    by (auto simp: map_of_create_column_mapping split: if_splits)
  with m have "v = most_common rank (occurrence_names ds k)"
    by (simp add: map_of_create_column_mapping)
  with most_common_maximal[OF ne, of rank] have "v \<in> set (occurrence_names ds k)" by simp
  then show ?thesis by (auto simp: occurrence_names_def)
qed

text \<open>
  Claim C10. A header that consists of whitespace only (or is empty) is standardized to
  the empty string, as a null-like header is. The loader strips it to the empty label,
  which is never a key of the standardized columns of a loaded table; and neither that
  label nor its standardized name occurs in the mapping built from the loaded tables.
\<close>

theorem whitespace_header_excluded:
  assumes "\<forall>c \<in> set s. isspace c"
  shows "analyze_column (Str s) = [] \<and>
    analyze_column (Str s) = analyze_column Null_like \<and>
    (\<forall>info \<in> set (extract_dataframes rw files).
       str_strip s \<notin> fst ` set (standardized_columns info)) \<and>
    str_strip s \<notin> snd ` set (create_column_mapping rank (extract_dataframes rw files)) \<and>
    analyze_column (Str s) \<notin> fst ` set (create_column_mapping rank (extract_dataframes rw files))"
proof -
  let ?ds = "extract_dataframes rw files"
  from assms have a: "analyze_column (Str s) = []" by (rule analyze_column_whitespace)
  from assms have st: "str_strip s = []" by (rule str_strip_whitespace)
  have items: "orig \<noteq> [] \<and> std \<noteq> []"
    if "info \<in> set ?ds" and "(orig, std) \<in> set (standardized_columns info)" for info orig std
    using that standardized_ok_extract[of rw files] standardized_ok_names by blast
  have b: "\<forall>info \<in> set ?ds. str_strip s \<notin> fst ` set (standardized_columns info)"
    using items by (force simp: st)
  have c: "k \<noteq> [] \<and> v \<noteq> []" if "(k, v) \<in> set (create_column_mapping rank ?ds)" for k v
    using create_column_mapping_item[OF that] items by blast
  have d: "str_strip s \<notin> snd ` set (create_column_mapping rank ?ds)"
    using c by (force simp: st)
  have e: "analyze_column (Str s) \<notin> fst ` set (create_column_mapping rank ?ds)"
    using c by (force simp: a)
  from a b d e show ?thesis by (simp add: analyze_column.simps(1))
qed

theorem whitespace_header_excluded_witness:
  "isspace CHR '' '' \<and>
   str_strip ''  '' = [] \<and>
   analyze_column (Str ''  '') = [] \<and>
   [] \<notin> fst ` set (standardized_columns info_blank) \<and>
   extract_dataframes files_ab [''d/a.xlsx'', ''d/b.xlsx''] = [info_trucks, info_blank] \<and>
   [] \<notin> snd ` set (create_column_mapping count_list
                      (extract_dataframes files_ab [''d/a.xlsx'', ''d/b.xlsx''])) \<and>
   [] \<notin> fst ` set (create_column_mapping count_list
                      (extract_dataframes files_ab [''d/a.xlsx'', ''d/b.xlsx'']))"
  (is "?sp \<and> ?strip \<and> ?key \<and> ?std \<and> ?load \<and> ?vals \<and> ?keys")
proof -
  have sp: ?sp by code_simp
  then have all: "\<forall>c \<in> set ''  ''. isspace c" by simp
  have strip: ?strip by code_simp
  have load: ?load by code_simp
  from whitespace_header_excluded[OF all, of files_ab "[''d/a.xlsx'', ''d/b.xlsx'']" count_list]
  have key: ?key
    and "\<forall>info \<in> set (extract_dataframes files_ab [''d/a.xlsx'', ''d/b.xlsx'']).
           str_strip ''  '' \<notin> fst ` set (standardized_columns info)"
    and "str_strip ''  '' \<notin> snd ` set (create_column_mapping count_list
                      (extract_dataframes files_ab [''d/a.xlsx'', ''d/b.xlsx'']))"
    and "analyze_column (Str ''  '') \<notin> fst ` set (create_column_mapping count_list
                      (extract_dataframes files_ab [''d/a.xlsx'', ''d/b.xlsx'']))"
    by blast+
  then have vals: ?vals and keys: ?keys and std: ?std
    by (simp_all only: strip load) simp_all
  from sp strip key std load vals keys show ?thesis by blast
qed

text \<open>
  A loaded table that has a column with a non-empty standardized name has an entry of the
  mapping found in it, so its projection keeps its rows.
\<close>

lemma standardize_names: "fst ` set (standardize cs acc) \<subseteq> fst ` set acc \<union> set cs"
proof (induction cs arbitrary: acc)
  case Nil
  then show ?case by simp
next
  case (Cons c cs)
  show ?case
  proof (cases "analyze_column (Str c) = []")
    case True
    with Cons.IH[of acc] show ?thesis by (auto simp: Let_def)
  next
    case False
    have "fst ` set (standardize cs (AList.update c (analyze_column (Str c)) acc)) \<subseteq>
        fst ` set (AList.update c (analyze_column (Str c)) acc) \<union> set cs"
      by (rule Cons.IH)
    also have "\<dots> = ({c} \<union> fst ` set acc) \<union> set cs"
      by (simp only: dom_update)
    finally show ?thesis using False by (auto simp: Let_def)
  qed
qed

lemma loaded_names_read_sheets:
  "\<forall>info \<in> set (read_sheets path sheets).
     fst ` set (standardized_columns info) \<subseteq> set (columns (dataframe info))"
proof (induction path sheets rule: read_sheets.induct)
  case (1 path)
  then show ?case by simp
next
  case (2 path sheet rest)
  then show ?case by simp
next
  case (3 path sheet raw rest)
  with standardize_names[of "columns (clean_columns raw)" "[]"] show ?case
    by (auto simp: Let_def)
qed

lemma loaded_names_extract:
  "\<forall>info \<in> set (extract_dataframes rw files).
     fst ` set (standardized_columns info) \<subseteq> set (columns (dataframe info))"
proof (induction files)
  case Nil
  then show ?case by simp
next
  case (Cons path files)
  show ?case
  proof (cases "rw path")
    case None
    with Cons show ?thesis by simp
  next
    case (Some sheets)
    with Cons loaded_names_read_sheets[of path sheets] show ?thesis
      by (simp add: ball_Un)
  qed
qed

lemma loaded_table_found:
  assumes "info \<in> set (extract_dataframes rw files)"
    and "(orig, std) \<in> set (standardized_columns info)"
  shows "\<exists>item \<in> set (create_column_mapping rank (extract_dataframes rw files)).
           found_in (dataframe info) item"
proof -
  let ?ds = "extract_dataframes rw files"
  from assms standardized_ok_extract[of rw files] have "item_ok (orig, std)"
    by (auto simp: standardized_ok_def)
  then have std: "analyze_column (Str orig) = std" by (simp add: item_ok_def)
  from assms loaded_names_extract[of rw files]
  have col: "orig \<in> set (columns (dataframe info))" by force
  from assms have "orig \<in> set (occurrence_names ?ds std)"
    by (force simp: occurrence_names_def)
  then have "occurrence_names ?ds std \<noteq> []" by auto
  then obtain chosen where "map_of (create_column_mapping rank ?ds) std = Some chosen"
    by (auto simp: map_of_create_column_mapping)
  then have "(std, chosen) \<in> set (create_column_mapping rank ?ds)"
    by (rule map_of_SomeD)
  moreover from std col have "found_in (dataframe info) (std, chosen)"
    by (auto simp: found_in_def)
  ultimately show ?thesis by blast
qed

end
